theory Spec2Isabelle
  imports Complex_Main
begin

section \<open>Mesh data model\<close>

text \<open>
  A shallow embedding of \<^verbatim>\<open>MeshLib::MeshRevision\<close> (MeshRevision.cpp) and of the
  duplication helpers it calls (DuplicateMeshComponents.cpp).

  A node carries its mutable identifier and its coordinates. Coordinates and tolerances
  are finite \<^verbatim>\<open>double\<close> values in the source; a finite double is a real number, and the
  model keeps these values as reals and rounds the result of every arithmetic operation
  on them as the double arithmetic does (see the section on double arithmetic).
  Identifiers and indices (\<^verbatim>\<open>std::size_t\<close>, \<^verbatim>\<open>unsigned\<close>) are natural numbers; the
  source relies on the width of \<^verbatim>\<open>unsigned\<close> in the sentinel
  \<^verbatim>\<open>std::numeric_limits<unsigned>::max()\<close> and in the sum \<^verbatim>\<open>i + offset\<close> of
  \<^verbatim>\<open>reducePrism\<close>, where the wrap-around is written out.

  A \<^verbatim>\<open>Node*\<close> is the position of the node in the vector that owns it, so an element is
  its type tag, the list of the positions of its nodes, and its material value.
\<close>

type_synonym point = "real \<times> real \<times> real"

record Node =
  ID :: nat
  coords :: point

datatype MeshElemType = LINE | TRIANGLE | QUAD | TETRAHEDRON | HEXAHEDRON | PYRAMID | PRISM

record Element =
  geomType :: MeshElemType
  enodes :: "nat list"
  evalue :: nat

record Mesh =
  mesh_name :: string
  mesh_nodes :: "Node list"
  mesh_elements :: "Element list"

text \<open>Undefined behaviour of the source is a value of the model: a read outside a vector
  or array, a dereferenced null pointer, a failed \<^verbatim>\<open>assert\<close>.\<close>

datatype fault = OutOfBounds | BadPointer | AssertionFailed

definition bindF :: "fault + 'a \<Rightarrow> ('a \<Rightarrow> fault + 'b) \<Rightarrow> fault + 'b" where
  "bindF m f = (case m of Inl e \<Rightarrow> Inl e | Inr x \<Rightarrow> f x)"

fun foldF :: "('s \<Rightarrow> 'a \<Rightarrow> fault + 's) \<Rightarrow> 'a list \<Rightarrow> 's \<Rightarrow> fault + 's" where
  "foldF f [] s = Inr s"
| "foldF f (x # xs) s = bindF (f s x) (foldF f xs)"

definition unsigned_max :: nat where
  "unsigned_max = 4294967295"

section \<open>Double arithmetic\<close>

text \<open>
  The result of an operation on doubles is a finite double, an infinity or not a number.
  A finite result is the exact result rounded to the nearest double, a tie going to the
  double with the even significand (the default rounding of IEEE 754 binary64); the two
  zeros are not told apart.

  \<open>rne q\<close> is the integer nearest to \<open>q\<close>, the even one of two that are equally near.
  \<open>expo x\<close> is the binary exponent of a positive \<open>x\<close>, not below the exponent - 1022 of
  the subnormal numbers, and \<open>ulp x\<close> the distance of neighbouring doubles at \<open>x\<close>: a
  significand has 53 bits. \<open>rnd x\<close> is \<open>x\<close> rounded without regard to overflow, \<open>fl x\<close> the
  result of an operation whose exact value is \<open>x\<close>: a rounded value of magnitude
  \<open>2 ^ 1024\<close> or more is an infinity.
\<close>

datatype double = Finite real | PosInf | NegInf | NaN

definition rne :: "real \<Rightarrow> int" where
  "rne q =
     (let f = \<lfloor>q\<rfloor>; r = q - of_int f in
      if r < 1 / 2 then f else if 1 / 2 < r then f + 1 else if even f then f else f + 1)"

definition expo :: "real \<Rightarrow> int" where
  "expo x = max \<lfloor>log 2 x\<rfloor> (- 1022)"

definition ulp :: "real \<Rightarrow> real" where
  "ulp x = 2 powr (of_int (expo x) - 52)"

definition rndpos :: "real \<Rightarrow> real" where
  "rndpos x = of_int (rne (x / ulp x)) * ulp x"

definition rnd :: "real \<Rightarrow> real" where
  "rnd x = (if x = 0 then 0 else if 0 < x then rndpos x else - rndpos (- x))"

definition fl :: "real \<Rightarrow> double" where
  "fl x =
     (let y = rnd x in
      if 2 ^ 1024 \<le> y then PosInf else if y \<le> - (2 ^ 1024) then NegInf else Finite y)"

text \<open>Negation, the product of a double with itself, the sum of two doubles, and the
  comparison \<^verbatim>\<open><\<close>, which is false as soon as one side is not a number.\<close>

fun dneg :: "double \<Rightarrow> double" where
  "dneg (Finite x) = Finite (- x)"
| "dneg PosInf = NegInf"
| "dneg NegInf = PosInf"
| "dneg NaN = NaN"

fun dsqr :: "double \<Rightarrow> double" where
  "dsqr (Finite x) = fl (x * x)"
| "dsqr PosInf = PosInf"
| "dsqr NegInf = PosInf"
| "dsqr NaN = NaN"

fun dadd :: "double \<Rightarrow> double \<Rightarrow> double" where
  "dadd (Finite x) (Finite y) = fl (x + y)"
| "dadd NaN b = NaN"
| "dadd a NaN = NaN"
| "dadd PosInf NegInf = NaN"
| "dadd NegInf PosInf = NaN"
| "dadd PosInf b = PosInf"
| "dadd a PosInf = PosInf"
| "dadd NegInf b = NegInf"
| "dadd a NegInf = NegInf"

fun dless :: "double \<Rightarrow> double \<Rightarrow> bool" where
  "dless (Finite x) (Finite y) = (x < y)"
| "dless (Finite x) PosInf = True"
| "dless NegInf (Finite y) = True"
| "dless NegInf PosInf = True"
| "dless a b = False"

text \<open>Modelled from the spec: \<^verbatim>\<open>MathLib::sqrDist\<close> is missing; the spec has it the squared
  Euclidean distance of two points. It is computed in double arithmetic: the three
  differences of the coordinates, their squares, and the sum of the squares from left to
  right are rounded one by one.\<close>

definition sqrDist :: "point \<Rightarrow> point \<Rightarrow> double" where
  "sqrDist p q =
     (case p of (x1, y1, z1) \<Rightarrow> case q of (x2, y2, z2) \<Rightarrow>
        dadd (dadd (dsqr (fl (x2 - x1))) (dsqr (fl (y2 - y1)))) (dsqr (fl (z2 - z1))))"

text \<open>The Euclidean distance of two points, in exact arithmetic.\<close>

definition distance :: "point \<Rightarrow> point \<Rightarrow> real" where
  "distance p q =
     (case p of (x1, y1, z1) \<Rightarrow> case q of (x2, y2, z2) \<Rightarrow>
        sqrt ((x2 - x1) * (x2 - x1) + (y2 - y1) * (y2 - y1) + (z2 - z1) * (z2 - z1)))"

section \<open>Element topology tables\<close>

definition hex_diametral_nodes :: "nat list" where
  "hex_diametral_nodes = [6, 7, 4, 5, 2, 3, 0, 1]"

definition lutHexDiametralNode :: "nat \<Rightarrow> fault + nat" where
  "lutHexDiametralNode i =
     (if i < length hex_diametral_nodes then Inr (hex_diametral_nodes ! i) else Inl OutOfBounds)"

text \<open>\<^verbatim>\<open>lutHexCuttingQuadNodes\<close> declares \<^verbatim>\<open>std::array<unsigned,4> nodes;\<close> without an
  initialiser, assigns it in 24 branches and returns it. The first argument of the model is
  what that storage holds when the function is entered.\<close>

type_synonym quad_ids = "nat \<times> nat \<times> nat \<times> nat"

definition lutHexCuttingQuadNodes :: "quad_ids \<Rightarrow> nat \<Rightarrow> nat \<Rightarrow> quad_ids" where
  "lutHexCuttingQuadNodes nodes id1 id2 =
     (if id1 = 0 \<and> id2 = 1 then (3, 2, 5, 4)
      else if id1 = 1 \<and> id2 = 2 then (0, 3, 6, 5)
      else if id1 = 2 \<and> id2 = 3 then (1, 0, 7, 6)
      else if id1 = 3 \<and> id2 = 0 then (2, 1, 4, 7)
      else if id1 = 4 \<and> id2 = 5 then (0, 1, 6, 7)
      else if id1 = 5 \<and> id2 = 6 then (1, 2, 7, 4)
      else if id1 = 6 \<and> id2 = 7 then (2, 3, 4, 5)
      else if id1 = 7 \<and> id2 = 4 then (3, 0, 5, 6)
      else if id1 = 0 \<and> id2 = 4 then (3, 7, 5, 1)
      else if id1 = 1 \<and> id2 = 5 then (0, 4, 6, 2)
      else if id1 = 2 \<and> id2 = 6 then (1, 5, 7, 3)
      else if id1 = 3 \<and> id2 = 7 then (2, 6, 4, 0)
      else if id1 = 1 \<and> id2 = 0 then (2, 3, 4, 5)
      else if id1 = 2 \<and> id2 = 1 then (3, 0, 5, 6)
      else if id1 = 3 \<and> id2 = 2 then (0, 1, 6, 7)
      else if id1 = 0 \<and> id2 = 3 then (1, 2, 7, 4)
      else if id1 = 5 \<and> id2 = 4 then (1, 0, 7, 6)
      else if id1 = 6 \<and> id2 = 5 then (2, 1, 4, 7)
      else if id1 = 7 \<and> id2 = 6 then (3, 2, 5, 4)
      else if id1 = 4 \<and> id2 = 7 then (0, 3, 6, 5)
      else if id1 = 4 \<and> id2 = 0 then (7, 3, 1, 5)
      else if id1 = 5 \<and> id2 = 1 then (4, 0, 2, 6)
      else if id1 = 6 \<and> id2 = 2 then (5, 1, 3, 7)
      else if id1 = 7 \<and> id2 = 3 then (6, 2, 0, 4)
      else nodes)"

text \<open>The 24 ordered corner pairs that have a branch in \<^verbatim>\<open>lutHexCuttingQuadNodes\<close>: the
  twelve edges of the hexahedron (bottom ring 0-1-2-3, top ring 4-5-6-7, uprights
  \<open>i\<close>-\<open>i+4\<close>), each in both directions.\<close>

definition cutting_quad_pairs :: "(nat \<times> nat) list" where
  "cutting_quad_pairs =
     [(0, 1), (1, 2), (2, 3), (3, 0), (4, 5), (5, 6), (6, 7), (7, 4),
      (0, 4), (1, 5), (2, 6), (3, 7),
      (1, 0), (2, 1), (3, 2), (0, 3), (5, 4), (6, 5), (7, 6), (4, 7),
      (4, 0), (5, 1), (6, 2), (7, 3)]"

definition lutHexBackNodes :: "nat \<Rightarrow> nat \<Rightarrow> nat \<Rightarrow> nat \<Rightarrow> fault + (nat \<times> nat)" where
  "lutHexBackNodes i j k l =
     bindF (lutHexDiametralNode i) (\<lambda>di.
       if di = k then bindF (lutHexDiametralNode l) (\<lambda>dl. Inr (i, dl))
       else if di = l then bindF (lutHexDiametralNode k) (\<lambda>dk. Inr (i, dk))
       else bindF (lutHexDiametralNode j) (\<lambda>dj.
         if dj = k then bindF (lutHexDiametralNode l) (\<lambda>dl. Inr (j, dl))
         else if dj = l then bindF (lutHexDiametralNode k) (\<lambda>dk. Inr (j, dk))
         else if i = k then bindF (lutHexDiametralNode l) (\<lambda>dl. Inr (dl, j))
         else if i = l then bindF (lutHexDiametralNode k) (\<lambda>dk. Inr (dk, j))
         else if j = k then bindF (lutHexDiametralNode l) (\<lambda>dl. Inr (dl, i))
         else if j = l then bindF (lutHexDiametralNode k) (\<lambda>dk. Inr (dk, i))
         else Inr (unsigned_max, unsigned_max)))"

definition lutPrismThirdNode :: "nat \<Rightarrow> nat \<Rightarrow> nat" where
  "lutPrismThirdNode id1 id2 =
     (if (id1 = 0 \<and> id2 = 1) \<or> (id1 = 1 \<and> id2 = 2) then 2
      else if (id1 = 1 \<and> id2 = 2) \<or> (id1 = 2 \<and> id2 = 1) then 0
      else if (id1 = 0 \<and> id2 = 2) \<or> (id1 = 2 \<and> id2 = 0) then 1
      else if (id1 = 3 \<and> id2 = 4) \<or> (id1 = 4 \<and> id2 = 3) then 5
      else if (id1 = 4 \<and> id2 = 5) \<or> (id1 = 5 \<and> id2 = 4) then 3
      else if (id1 = 3 \<and> id2 = 5) \<or> (id1 = 5 \<and> id2 = 3) then 4
      else unsigned_max)"

section \<open>Collaborators outside these sources\<close>

text \<open>
  MeshRevision.cpp calls code whose sources are not part of this development; the model
  takes it as a parameter:
  \<^item> \<open>gridQuery nodes c h\<close>: \<^verbatim>\<open>GeoLib::Grid<Node> grid(nodes.begin(), nodes.end(), 64)\<close>
    followed by \<^verbatim>\<open>grid.getPntVecsOfGridCellsIntersectingCube(c, h, node_vectors)\<close>: the node
    vectors of the grid cells that meet the cube of half edge length \<open>h\<close> around \<open>c\<close>, each
    a list of node pointers;
  \<^item> \<open>validate t ns\<close>: \<^verbatim>\<open>Element::validate()\<close> of an element of type \<open>t\<close> whose nodes are,
    in order, \<open>ns\<close>;
  \<^item> \<open>isCoplanar\<close>: \<^verbatim>\<open>GeoLib::isCoplanar\<close>;
  \<^item> \<open>hexFaceNodes\<close>, \<open>hexIsEdge\<close>: the face table behind \<^verbatim>\<open>Hex::getFace\<close> and
    \<^verbatim>\<open>Hex::isEdge\<close>;
  \<^item> \<open>defaultMinElemDim\<close>: the default argument that MeshRevision.h declares for the
    parameter \<^verbatim>\<open>min_elem_dim\<close> of \<^verbatim>\<open>constructFourNodeElement\<close>;
  \<^item> \<open>stackJunk\<close>: the content of the uninitialised array of \<^verbatim>\<open>lutHexCuttingQuadNodes\<close>.
\<close>

datatype ElementErrorFlag = ZeroVolume | NonCoplanar | NonConvex | NodeOrder

record env =
  gridQuery :: "Node list \<Rightarrow> point \<Rightarrow> real \<Rightarrow> nat list list"
  validate :: "MeshElemType \<Rightarrow> Node list \<Rightarrow> ElementErrorFlag set"
  isCoplanar :: "point \<Rightarrow> point \<Rightarrow> point \<Rightarrow> point \<Rightarrow> bool"
  hexFaceNodes :: "nat \<Rightarrow> nat list"
  hexIsEdge :: "nat \<Rightarrow> nat \<Rightarrow> bool"
  defaultMinElemDim :: nat
  stackJunk :: quad_ids

section \<open>Collapsing nodes\<close>

text \<open>The body of the innermost loop of \<^verbatim>\<open>collapseNodeIndeces\<close>: \<open>node\<close> is \<^verbatim>\<open>nodes[k]\<close>
  and \<open>p\<close> the pointer \<^verbatim>\<open>cell_vector[j]\<close>.\<close>

definition test_node_step :: "Node list \<Rightarrow> double \<Rightarrow> Node \<Rightarrow> nat list \<Rightarrow> nat \<Rightarrow> fault + nat list" where
  "test_node_step nodes sqr_eps node id_map p =
     (if length nodes \<le> p then Inl BadPointer
      else let test_node = nodes ! p in
        if length id_map \<le> ID node \<or> length id_map \<le> ID test_node then Inl OutOfBounds
        else if id_map ! ID node = id_map ! ID test_node then Inr id_map
        else if ID test_node \<noteq> id_map ! ID test_node then Inr id_map
        else if dless (sqrDist (coords node) (coords test_node)) sqr_eps
          then Inr (id_map[ID test_node := ID node])
        else Inr id_map)"

text \<open>One round of the loop over \<open>k\<close>. The quotient \<^verbatim>\<open>eps / 2.0\<close> of a finite \<open>eps\<close> is
  finite, the product \<^verbatim>\<open>eps * eps\<close> can be infinite.\<close>

definition collapse_from :: "env \<Rightarrow> Node list \<Rightarrow> real \<Rightarrow> nat list \<Rightarrow> nat \<Rightarrow> fault + nat list" where
  "collapse_from E nodes eps id_map k =
     (let half_eps = rnd (eps / 2); sqr_eps = fl (eps * eps); node = nodes ! k in
      if ID node \<noteq> k then Inr id_map
      else foldF (\<lambda>m cell_vector. foldF (test_node_step nodes sqr_eps node) cell_vector m)
             (gridQuery E nodes (coords node) half_eps) id_map)"

definition collapseNodeIndeces :: "env \<Rightarrow> Node list \<Rightarrow> real \<Rightarrow> fault + nat list" where
  "collapseNodeIndeces E nodes eps =
     foldF (collapse_from E nodes eps) [0..<length nodes] [0..<length nodes]"

text \<open>The counter of \<^verbatim>\<open>getNCollapsableNodes\<close> is an \<^verbatim>\<open>unsigned\<close>, so the function returns the
  number of the entries that differ from their position modulo \<open>2 ^ 32\<close>.\<close>

definition getNCollapsableNodes :: "env \<Rightarrow> Node list \<Rightarrow> real \<Rightarrow> fault + nat" where
  "getNCollapsableNodes E nodes eps =
     bindF (collapseNodeIndeces E nodes eps)
       (\<lambda>id_map. Inr (length (filter (\<lambda>i. i \<noteq> id_map ! i) [0..<length id_map]) mod 4294967296))"

text \<open>\<^verbatim>\<open>constructNewNodesArray\<close> rewrites the identifiers of the mesh's own nodes while it
  fills the new vector; its state is the pair of both vectors.\<close>

definition newNodes_step :: "nat list \<Rightarrow> Node list \<times> Node list \<Rightarrow> nat \<Rightarrow> fault + Node list \<times> Node list" where
  "newNodes_step id_map s k =
     (case s of (nodes, new_nodes) \<Rightarrow>
        if length id_map \<le> k then Inl OutOfBounds
        else if ID (nodes ! k) = id_map ! k then
          (let i = length new_nodes in
           Inr (nodes[k := (nodes ! k)\<lparr>ID := i\<rparr>],
                new_nodes @ [\<lparr>ID = i, coords = coords (nodes ! k)\<rparr>]))
        else if length nodes \<le> id_map ! k then Inl OutOfBounds
        else Inr (nodes[k := (nodes ! k)\<lparr>ID := ID (nodes ! (id_map ! k))\<rparr>], new_nodes))"

definition constructNewNodesArray :: "Node list \<Rightarrow> nat list \<Rightarrow> fault + Node list \<times> Node list" where
  "constructNewNodesArray nodes id_map =
     foldF (newNodes_step id_map) [0..<length nodes] (nodes, [])"

definition resetNodeIDs :: "Node list \<Rightarrow> Node list" where
  "resetNodeIDs nodes = map (\<lambda>i. (nodes ! i)\<lparr>ID := i\<rparr>) [0..<length nodes]"

section \<open>Duplicating mesh components\<close>

definition getNNodes :: "Element \<Rightarrow> nat" where
  "getNNodes e =
     (case geomType e of LINE \<Rightarrow> 2 | TRIANGLE \<Rightarrow> 3 | QUAD \<Rightarrow> 4 | TETRAHEDRON \<Rightarrow> 4
      | HEXAHEDRON \<Rightarrow> 8 | PYRAMID \<Rightarrow> 5 | PRISM \<Rightarrow> 6)"

definition getDimension :: "Element \<Rightarrow> nat" where
  "getDimension e =
     (case geomType e of LINE \<Rightarrow> 1 | TRIANGLE \<Rightarrow> 2 | QUAD \<Rightarrow> 2 | TETRAHEDRON \<Rightarrow> 3
      | HEXAHEDRON \<Rightarrow> 3 | PYRAMID \<Rightarrow> 3 | PRISM \<Rightarrow> 3)"

text \<open>\<open>nodeIDs nodes e\<close> is the list of \<^verbatim>\<open>e->getNode(i)->getID()\<close> for \<open>i\<close> below
  \<^verbatim>\<open>e->getNNodes()\<close>; the node array of an element has the size its type says, and its
  entries point into \<open>nodes\<close>.\<close>

definition nodeIDs :: "Node list \<Rightarrow> Element \<Rightarrow> fault + nat list" where
  "nodeIDs nodes e =
     (if length (enodes e) \<noteq> getNNodes e then Inl OutOfBounds
      else if list_all (\<lambda>p. p < length nodes) (enodes e) then Inr (map (\<lambda>p. ID (nodes ! p)) (enodes e))
      else Inl BadPointer)"

text \<open>\<open>allAt nodes ids\<close> is the sequence of the pointers \<^verbatim>\<open>nodes[i]\<close> of a node vector, for
  \<open>i\<close> in \<open>ids\<close>.\<close>

definition allAt :: "Node list \<Rightarrow> nat list \<Rightarrow> fault + nat list" where
  "allAt nodes ids = (if list_all (\<lambda>i. i < length nodes) ids then Inr ids else Inl OutOfBounds)"

definition mkElement :: "MeshElemType \<Rightarrow> nat list \<Rightarrow> nat \<Rightarrow> Element" where
  "mkElement t ps v = \<lparr>geomType = t, enodes = ps, evalue = v\<rparr>"

text \<open>\<open>copyElement new_nodes nodes e\<close>: \<open>nodes\<close> is the vector the element points into,
  \<open>new_nodes\<close> the vector of the result mesh. With the seven element classes of the
  sources the trailing \<^verbatim>\<open>return nullptr\<close> is not reached.\<close>

definition copyElement :: "Node list \<Rightarrow> Node list \<Rightarrow> Element \<Rightarrow> fault + Element" where
  "copyElement new_nodes nodes e =
     bindF (nodeIDs nodes e) (\<lambda>ids.
     bindF (allAt new_nodes ids) (\<lambda>ps. Inr (mkElement (geomType e) ps (evalue e))))"

definition copyElementVector :: "Node list \<Rightarrow> Node list \<Rightarrow> Element list \<Rightarrow> fault + Element list" where
  "copyElementVector new_nodes nodes elements =
     foldF (\<lambda>new_elements e. bindF (copyElement new_nodes nodes e) (\<lambda>c. Inr (new_elements @ [c])))
       elements []"

text \<open>\<open>collapseNodes\<close> returns the new mesh and the node vector of the revised mesh as it
  leaves it.\<close>

definition collapseNodes :: "env \<Rightarrow> string \<Rightarrow> Mesh \<Rightarrow> real \<Rightarrow> fault + Mesh \<times> Node list" where
  "collapseNodes E new_mesh_name mesh eps =
     bindF (collapseNodeIndeces E (mesh_nodes mesh) eps) (\<lambda>id_map.
     bindF (constructNewNodesArray (mesh_nodes mesh) id_map) (\<lambda>(nodes, new_nodes).
     bindF (copyElementVector new_nodes nodes (mesh_elements mesh)) (\<lambda>new_elements.
       Inr (\<lparr>mesh_name = new_mesh_name, mesh_nodes = new_nodes, mesh_elements = new_elements\<rparr>,
            resetNodeIDs nodes))))"

section \<open>Well-formed inputs of the collapse search\<close>

text \<open>\<open>candidates E nodes eps k\<close> are the pointers that the grid hands to round \<open>k\<close> of
  \<^verbatim>\<open>collapseNodeIndeces\<close>, cell after cell. \<open>grid_ok\<close>: they point to nodes of the mesh.
  \<open>ids_ok\<close>: the identifier of every node is its position in the node vector, as the
  constructor of a mesh and \<^verbatim>\<open>resetNodeIDs\<close> leave it.\<close>

definition candidates :: "env \<Rightarrow> Node list \<Rightarrow> real \<Rightarrow> nat \<Rightarrow> nat list" where
  "candidates E nodes eps k = concat (gridQuery E nodes (coords (nodes ! k)) (rnd (eps / 2)))"

definition grid_ok :: "env \<Rightarrow> Node list \<Rightarrow> real \<Rightarrow> bool" where
  "grid_ok E nodes eps =
     list_all (\<lambda>k. list_all (\<lambda>p. p < length nodes) (candidates E nodes eps k)) [0..<length nodes]"

definition ids_ok :: "Node list \<Rightarrow> bool" where
  "ids_ok nodes = list_all (\<lambda>i. ID (nodes ! i) = i) [0..<length nodes]"


section \<open>Constructing reduced elements\<close>

text \<open>The messages the code hands to \<^verbatim>\<open>ERR\<close>.\<close>

datatype report =
  ElementUnknownType nat
  | MoreUniqueNodes
  | UnknownElementType
  | HexReductionError
  | PrismReductionError

text \<open>The elements built so far and the messages reported so far.\<close>

type_synonym out = "Element list \<times> report list"

definition push :: "Element \<Rightarrow> out \<Rightarrow> out" where
  "push e s = (case s of (elements, reports) \<Rightarrow> (elements @ [e], reports))"

definition err :: "report \<Rightarrow> out \<Rightarrow> out" where
  "err r s = (case s of (elements, reports) \<Rightarrow> (elements, reports @ [r]))"

text \<open>\<open>idsAt ids js\<close> reads \<^verbatim>\<open>org_elem->getNode(j)->getID()\<close> for the local indices \<open>js\<close>,
  where \<open>ids\<close> are the identifiers of the nodes of \<^verbatim>\<open>org_elem\<close>; \<^verbatim>\<open>getNode\<close> returns a null
  pointer for an index the element does not have. \<open>newElem nodes t xs v\<close> is
  \<^verbatim>\<open>new T(a, v)\<close> for the array \<open>a\<close> of the pointers \<^verbatim>\<open>nodes[x]\<close>.\<close>

definition idsAt :: "nat list \<Rightarrow> nat list \<Rightarrow> fault + nat list" where
  "idsAt ids js =
     (if list_all (\<lambda>j. j < length ids) js then Inr (map (\<lambda>j. ids ! j) js) else Inl BadPointer)"

definition newElem :: "Node list \<Rightarrow> MeshElemType \<Rightarrow> nat list \<Rightarrow> nat \<Rightarrow> fault + Element" where
  "newElem nodes t xs v = bindF (allAt nodes xs) (\<lambda>ps. Inr (mkElement t ps v))"

definition fromLocal :: "Node list \<Rightarrow> nat list \<Rightarrow> MeshElemType \<Rightarrow> nat list \<Rightarrow> nat \<Rightarrow> fault + Element" where
  "fromLocal nodes ids t js v = bindF (idsAt ids js) (\<lambda>xs. newElem nodes t xs v)"

text \<open>\<open>getNUniqueNodes ids\<close> for the identifiers \<open>ids\<close> of the nodes of an element: the
  counter starts at the number of nodes and is decreased once for every position but the
  last that has an equal identifier behind it. Every element has at least two nodes, so
  \<^verbatim>\<open>nNodes - 1\<close> does not wrap around, and the counter is decreased at most
  \<^verbatim>\<open>nNodes - 1\<close> times.\<close>

definition getNUniqueNodes :: "nat list \<Rightarrow> nat" where
  "getNUniqueNodes ids =
     length ids
     - length (filter (\<lambda>i. list_ex (\<lambda>j. ids ! i = ids ! j) [Suc i..<length ids])
                 [0..<length ids - 1])"

text \<open>In the functions below \<open>src\<close> is the node vector that the nodes of the element in
  hand belong to (the revised mesh, or the new vector for an element built on the way),
  \<open>nodes\<close> is the new node vector as in the source.\<close>

definition constructLine :: "Node list \<Rightarrow> Node list \<Rightarrow> Element \<Rightarrow> fault + Element" where
  "constructLine src nodes element =
     bindF (nodeIDs src element) (\<lambda>ids.
     bindF (idsAt ids [0]) (\<lambda>first.
     bindF (allAt nodes first) (\<lambda>p0.
       case find (\<lambda>x. x \<noteq> ids ! 0) (tl ids) of
         None \<Rightarrow> Inl AssertionFailed
       | Some x \<Rightarrow> newElem nodes LINE [ids ! 0, x] (evalue element))))"

text \<open>The search of \<^verbatim>\<open>constructTri\<close> from index \<open>i\<close> on: \<open>a\<close> is the identifier of
  \<^verbatim>\<open>tri_nodes[0]\<close>, \<open>rest\<close> the identifiers of the element nodes from \<open>i\<close> on. A candidate for
  the second corner that has no third corner behind it is given up for the next one.\<close>

fun constructTri_search :: "Node list \<Rightarrow> nat \<Rightarrow> nat list \<Rightarrow> fault + (nat \<times> nat) option" where
  "constructTri_search nodes a [] = Inr None"
| "constructTri_search nodes a (x # rest) =
     (if x \<noteq> a then
        (if length nodes \<le> x then Inl OutOfBounds
         else case find (\<lambda>y. y \<noteq> ID (nodes ! x)) rest of
                Some y \<Rightarrow> (if length nodes \<le> y then Inl OutOfBounds else Inr (Some (x, y)))
              | None \<Rightarrow> constructTri_search nodes a rest)
      else constructTri_search nodes a rest)"

definition constructTri :: "Node list \<Rightarrow> Node list \<Rightarrow> Element \<Rightarrow> fault + Element" where
  "constructTri src nodes element =
     bindF (nodeIDs src element) (\<lambda>ids.
     bindF (idsAt ids [0]) (\<lambda>first.
     bindF (allAt nodes first) (\<lambda>p0.
     bindF (constructTri_search nodes (ID (nodes ! (ids ! 0))) (tl ids)) (\<lambda>found.
       case found of
         None \<Rightarrow> Inl AssertionFailed
       | Some (x, y) \<Rightarrow> newElem nodes TRIANGLE [ids ! 0, x, y] (evalue element)))))"

text \<open>The positions of the element nodes whose identifier does not occur at an earlier
  position.\<close>

definition firstOccurrences :: "nat list \<Rightarrow> nat list" where
  "firstOccurrences ids =
     filter (\<lambda>i. list_all (\<lambda>j. ids ! i \<noteq> ids ! j) [0..<i]) [0..<length ids]"

text \<open>The quadrilateral of \<^verbatim>\<open>constructFourNodeElement\<close> keeps the array \<^verbatim>\<open>new_nodes\<close>, so
  the two exchanges in the loop change the element that is validated and returned.\<close>

definition orderQuad :: "env \<Rightarrow> Node list \<Rightarrow> nat list \<Rightarrow> nat list" where
  "orderQuad E nodes ps =
     (if validate E QUAD (map (\<lambda>p. nodes ! p) ps) = {} then ps
      else let ps1 = [ps ! 0, ps ! 2, ps ! 1, ps ! 3] in
        if validate E QUAD (map (\<lambda>p. nodes ! p) ps1) = {} then ps1
        else [ps1 ! 0, ps1 ! 1, ps1 ! 3, ps1 ! 2])"

definition constructFourNodeElement ::
    "env \<Rightarrow> Node list \<Rightarrow> Node list \<Rightarrow> Element \<Rightarrow> nat \<Rightarrow> fault + Element option" where
  "constructFourNodeElement E src nodes element min_elem_dim =
     bindF (nodeIDs src element) (\<lambda>ids.
     let uniq = map (\<lambda>i. ids ! i) (take 4 (firstOccurrences ids)) in
     if length uniq < 4 then Inl BadPointer
     else bindF (allAt nodes uniq) (\<lambda>ps.
       let isQuad = isCoplanar E (coords (nodes ! (ps ! 0))) (coords (nodes ! (ps ! 1)))
                      (coords (nodes ! (ps ! 2))) (coords (nodes ! (ps ! 3))) in
       if isQuad \<and> min_elem_dim < 3
         then Inr (Some (mkElement QUAD (orderQuad E nodes ps) (evalue element)))
       else if \<not> isQuad
         then Inr (Some (mkElement TETRAHEDRON ps (evalue element)))
       else Inr None))"

definition findPyramidTopNode :: "nat list \<Rightarrow> nat list \<Rightarrow> nat" where
  "findPyramidTopNode ids base_node_ids =
     (case find (\<lambda>i. list_all (\<lambda>b. ids ! i \<noteq> b) base_node_ids) [0..<length ids] of
        Some i \<Rightarrow> i
      | None \<Rightarrow> unsigned_max)"

section \<open>Subdividing elements\<close>

definition subdivideQuad :: "Node list \<Rightarrow> Node list \<Rightarrow> Element \<Rightarrow> out \<Rightarrow> fault + nat \<times> out" where
  "subdivideQuad src nodes quad s =
     bindF (nodeIDs src quad) (\<lambda>ids.
     bindF (fromLocal nodes ids TRIANGLE [0, 1, 2] (evalue quad)) (\<lambda>tri1.
     bindF (fromLocal nodes ids TRIANGLE [0, 2, 3] (evalue quad)) (\<lambda>tri2.
       Inr (2, push tri2 (push tri1 s)))))"

definition subdividePyramid :: "Node list \<Rightarrow> Node list \<Rightarrow> Element \<Rightarrow> out \<Rightarrow> fault + nat \<times> out" where
  "subdividePyramid src nodes pyramid s =
     bindF (nodeIDs src pyramid) (\<lambda>ids.
     bindF (fromLocal nodes ids TETRAHEDRON [0, 1, 2, 4] (evalue pyramid)) (\<lambda>tet1.
     bindF (fromLocal nodes ids TETRAHEDRON [0, 2, 3, 4] (evalue pyramid)) (\<lambda>tet2.
       Inr (2, push tet2 (push tet1 s)))))"

definition subdividePrism :: "Node list \<Rightarrow> Node list \<Rightarrow> Element \<Rightarrow> out \<Rightarrow> fault + nat \<times> out" where
  "subdividePrism src nodes prism s =
     bindF (nodeIDs src prism) (\<lambda>ids.
     bindF (fromLocal nodes ids TETRAHEDRON [0, 1, 2, 3] (evalue prism)) (\<lambda>tet1.
     bindF (fromLocal nodes ids TETRAHEDRON [3, 2, 4, 5] (evalue prism)) (\<lambda>tet2.
     bindF (fromLocal nodes ids TETRAHEDRON [2, 1, 3, 4] (evalue prism)) (\<lambda>tet3.
       Inr (3, push tet3 (push tet2 (push tet1 s)))))))"

text \<open>The two prisms of \<^verbatim>\<open>subdivideHex\<close> are built on nodes of the new vector and handed to
  \<^verbatim>\<open>subdividePrism\<close>.\<close>

definition subdivideHex :: "Node list \<Rightarrow> Node list \<Rightarrow> Element \<Rightarrow> out \<Rightarrow> fault + nat \<times> out" where
  "subdivideHex src nodes hex s =
     bindF (nodeIDs src hex) (\<lambda>ids.
     bindF (fromLocal nodes ids PRISM [0, 2, 1, 4, 6, 5] (evalue hex)) (\<lambda>prism1.
     bindF (subdividePrism nodes nodes prism1 s) (\<lambda>(n1, s1).
     bindF (fromLocal nodes ids PRISM [4, 6, 7, 0, 2, 3] (evalue hex)) (\<lambda>prism2.
     bindF (subdividePrism nodes nodes prism2 s1) (\<lambda>(n2, s2).
       Inr (6, s2))))))"

definition subdivideElement :: "Node list \<Rightarrow> Node list \<Rightarrow> Element \<Rightarrow> out \<Rightarrow> fault + bool \<times> out" where
  "subdivideElement src nodes element s =
     bindF (if geomType element = QUAD then subdivideQuad src nodes element s
            else if geomType element = HEXAHEDRON then subdivideHex src nodes element s
            else if geomType element = PYRAMID then subdividePyramid src nodes element s
            else if geomType element = PRISM then subdividePrism src nodes element s
            else Inr (0, s))
       (\<lambda>(n_new_elems, s'). Inr (0 < n_new_elems, s'))"

section \<open>Reducing elements\<close>

definition reducePyramid ::
    "env \<Rightarrow> Node list \<Rightarrow> Node list \<Rightarrow> Element \<Rightarrow> nat \<Rightarrow> out \<Rightarrow> nat \<Rightarrow> fault + out" where
  "reducePyramid E src nodes org_elem n_unique_nodes s min_elem_dim =
     (if n_unique_nodes = 4 then
        bindF (constructFourNodeElement E src nodes org_elem min_elem_dim) (\<lambda>elem.
          case elem of Some e \<Rightarrow> Inr (push e s) | None \<Rightarrow> Inr s)
      else if n_unique_nodes = 3 \<and> min_elem_dim < 3 then
        bindF (constructTri src nodes org_elem) (\<lambda>e. Inr (push e s))
      else if n_unique_nodes = 2 \<and> min_elem_dim = 1 then
        bindF (constructLine src nodes org_elem) (\<lambda>e. Inr (push e s))
      else Inr s)"

text \<open>\<^verbatim>\<open>x + offset\<close> in \<^verbatim>\<open>reducePrism\<close>, where the \<^verbatim>\<open>int\<close> \<^verbatim>\<open>offset\<close> is \<open>-3\<close> for \<open>i > 2\<close>
  and 3 otherwise, and the sum is taken in \<^verbatim>\<open>unsigned\<close>.\<close>

definition prismOffset :: "nat \<Rightarrow> nat \<Rightarrow> nat" where
  "prismOffset i x =
     (if 2 < i then (x + 4294967293) mod 4294967296 else (x + 3) mod 4294967296)"

text \<open>The branch \<^verbatim>\<open>n_unique_nodes == 5\<close> of \<^verbatim>\<open>reducePrism\<close> once the loops have found the
  first pair \<open>i < j\<close> of local indices with equal identifiers.\<close>

definition reducePrism_pair ::
    "env \<Rightarrow> Node list \<Rightarrow> Node list \<Rightarrow> Element \<Rightarrow> nat list \<Rightarrow> out \<Rightarrow> nat \<Rightarrow> nat \<Rightarrow> fault + nat \<times> out" where
  "reducePrism_pair E src nodes org_elem ids s i j =
     (if i mod 3 = j mod 3 then
        bindF (fromLocal nodes ids TETRAHEDRON
                 [(i + 1) mod 3, (i + 2) mod 3, i, (i + 1) mod 3 + 3] (evalue org_elem)) (\<lambda>tet1.
        bindF (fromLocal nodes ids TETRAHEDRON
                 [(i + 1) mod 3 + 3, (i + 2) mod 3, i, (i + 2) mod 3 + 3] (evalue org_elem)) (\<lambda>tet2.
          Inr (2, push tet2 (push tet1 s))))
      else if lutPrismThirdNode i j = unsigned_max then Inr (0, err PrismReductionError s)
      else
        bindF (fromLocal nodes ids TETRAHEDRON
                 [prismOffset i i, prismOffset i j, prismOffset i (lutPrismThirdNode i j), i]
                 (evalue org_elem)) (\<lambda>tet1.
        bindF (idsAt (enodes org_elem)
                 [prismOffset i i, prismOffset i (lutPrismThirdNode i j), i, lutPrismThirdNode i j]) (\<lambda>ps.
        bindF (fromLocal nodes ids TETRAHEDRON
                 [prismOffset i
                    (if isCoplanar E (coords (src ! (ps ! 0))) (coords (src ! (ps ! 1)))
                          (coords (src ! (ps ! 2))) (coords (src ! (ps ! 3)))
                     then j else i),
                  prismOffset i (lutPrismThirdNode i j), i, lutPrismThirdNode i j]
                 (evalue org_elem)) (\<lambda>tet2.
          Inr (2, push tet2 (push tet1 s))))))"

definition reducePrism ::
    "env \<Rightarrow> Node list \<Rightarrow> Node list \<Rightarrow> Element \<Rightarrow> nat \<Rightarrow> out \<Rightarrow> nat \<Rightarrow> fault + nat \<times> out" where
  "reducePrism E src nodes org_elem n_unique_nodes s min_elem_dim =
     (if n_unique_nodes = 5 then
        bindF (nodeIDs src org_elem) (\<lambda>ids.
        if length ids < 6 then Inl BadPointer
        else case find (\<lambda>ij. ids ! fst ij = ids ! snd ij) [(i, j). i \<leftarrow> [0..<5], j \<leftarrow> [Suc i..<6]] of
          None \<Rightarrow> Inr (1, s)
        | Some ij \<Rightarrow> reducePrism_pair E src nodes org_elem ids s (fst ij) (snd ij))
      else if n_unique_nodes = 4 then
        bindF (constructFourNodeElement E src nodes org_elem min_elem_dim) (\<lambda>elem.
          case elem of Some e \<Rightarrow> Inr (1, push e s) | None \<Rightarrow> Inr (1, s))
      else if n_unique_nodes = 3 \<and> min_elem_dim < 3 then
        bindF (constructTri src nodes org_elem) (\<lambda>e. Inr (1, push e s))
      else if n_unique_nodes = 2 \<and> min_elem_dim = 1 then
        bindF (constructLine src nodes org_elem) (\<lambda>e. Inr (1, push e s))
      else Inr (1, s))"

text \<open>\<^verbatim>\<open>getNodeIDinElement\<close>: the first local index at which the element holds the given
  node pointer.\<close>

definition getNodeIDinElement :: "Element \<Rightarrow> nat \<Rightarrow> nat" where
  "getNodeIDinElement e p =
     (case find (\<lambda>i. enodes e ! i = p) [0..<length (enodes e)] of
        Some i \<Rightarrow> i
      | None \<Rightarrow> unsigned_max)"

text \<open>The first loop of the branch \<^verbatim>\<open>n_unique_nodes == 6\<close> of \<^verbatim>\<open>reduceHex\<close>, over the faces
  \<open>fs\<close> that are still to be looked at. \<open>None\<close>: no face matched and the function goes on
  with its second loop. The local indices \<open>q\<close> are those that \<^verbatim>\<open>getNodeIDinElement\<close> finds
  for the four nodes of the face.\<close>

fun reduceHex_faces ::
    "env \<Rightarrow> Node list \<Rightarrow> Element \<Rightarrow> nat list \<Rightarrow> nat list \<Rightarrow> out \<Rightarrow> fault + (nat \<times> out) option" where
  "reduceHex_faces E nodes org_elem ids [] s = Inr None"
| "reduceHex_faces E nodes org_elem ids (i # fs) s =
     (let face = hexFaceNodes E i in
      if length face \<noteq> 4 \<or> \<not> list_all (\<lambda>j. j < length ids \<and> j < length (enodes org_elem)) face
        then Inl BadPointer
      else
        let fid = (\<lambda>j. ids ! (face ! j));
            q = (\<lambda>j. getNodeIDinElement org_elem (enodes org_elem ! (face ! j))) in
        if fid 0 = fid 1 \<and> fid 2 = fid 3 then
          bindF (lutHexDiametralNode (q 0)) (\<lambda>d0.
          bindF (lutHexDiametralNode (q 1)) (\<lambda>d1.
          bindF (lutHexDiametralNode (q 2)) (\<lambda>d2.
          bindF (lutHexDiametralNode (q 3)) (\<lambda>d3.
          bindF (fromLocal nodes ids PRISM [d0, d1, q 2, d2, d3, q 0] (evalue org_elem)) (\<lambda>prism.
            Inr (Some (1, push prism s)))))))
        else if fid 0 = fid 3 \<and> fid 1 = fid 2 then
          bindF (lutHexDiametralNode (q 0)) (\<lambda>d0.
          bindF (lutHexDiametralNode (q 3)) (\<lambda>d3.
          bindF (lutHexDiametralNode (q 1)) (\<lambda>d1.
          bindF (lutHexDiametralNode (q 2)) (\<lambda>d2.
          bindF (fromLocal nodes ids PRISM [d0, d3, q 2, d1, d2, q 0] (evalue org_elem)) (\<lambda>prism_nodes.
            Inr (Some (1, s)))))))
        else reduceHex_faces E nodes org_elem ids fs s)"

text \<open>A prism on six nodes of the element itself, as the second loop of that branch builds
  two: \<open>js\<close> are local indices of \<^verbatim>\<open>org_elem\<close>.\<close>

definition prismOnOriginal :: "Element \<Rightarrow> nat list \<Rightarrow> fault + Element" where
  "prismOnOriginal org_elem js =
     (if list_all (\<lambda>j. j < length (enodes org_elem)) js
      then Inr (mkElement PRISM (map (\<lambda>j. enodes org_elem ! j) js) (evalue org_elem))
      else Inl BadPointer)"

text \<open>A hexahedron has eight nodes, a prism six; for an element with fewer, the branches
  that address the corners by number report the null pointer that \<^verbatim>\<open>getNode\<close> returns.\<close>

definition reduceHex ::
    "env \<Rightarrow> Node list \<Rightarrow> Node list \<Rightarrow> Element \<Rightarrow> nat \<Rightarrow> out \<Rightarrow> nat \<Rightarrow> fault + nat \<times> out" where
  "reduceHex E src nodes org_elem n_unique_nodes s min_elem_dim =
     bindF (nodeIDs src org_elem) (\<lambda>ids.
     if n_unique_nodes = 7 then
       (if length ids < 8 then Inl BadPointer
        else case find (\<lambda>(i, j). ids ! i = ids ! j) [(i, j). i \<leftarrow> [0..<7], j \<leftarrow> [Suc i..<8]] of
          None \<Rightarrow> Inr (0, s)
        | Some (i, j) \<Rightarrow>
            (case lutHexCuttingQuadNodes (stackJunk E) i j of (b0, b1, b2, b3) \<Rightarrow>
               bindF (fromLocal nodes ids PYRAMID [b0, b1, b2, b3, i] (evalue org_elem)) (\<lambda>pyr.
               let i' = (if i < 4 \<and> 4 \<le> j then j else i);
                   j' = (if i < 4 \<and> 4 \<le> j then i else j) in
               bindF (lutHexDiametralNode j') (\<lambda>dj.
               bindF (lutHexDiametralNode i') (\<lambda>di.
               bindF (fromLocal nodes ids PRISM [b0, b3, dj, b1, b2, di] (evalue org_elem)) (\<lambda>prism.
                 Inr (2, push prism (push pyr s))))))))
     else if n_unique_nodes = 6 then
       (if length ids < 8 then Inl BadPointer
        else bindF (reduceHex_faces E nodes org_elem ids [0..<6] s) (\<lambda>r.
          case r of
            Some res \<Rightarrow> Inr res
          | None \<Rightarrow>
             (case find (\<lambda>(i, j, k, l). ids ! i = ids ! j \<and> \<not> (i = k \<and> j = l)
                            \<and> hexIsEdge E i j \<and> hexIsEdge E k l \<and> ids ! k = ids ! l)
                     [(i, j, k, l). i \<leftarrow> [0..<7], j \<leftarrow> [Suc i..<8], k \<leftarrow> [i..<7], l \<leftarrow> [Suc k..<8]] of
                None \<Rightarrow> Inr (0, s)
              | Some (i, j, k, l) \<Rightarrow>
                  bindF (lutHexBackNodes i j k l) (\<lambda>back.
                  if fst back = unsigned_max \<or> snd back = unsigned_max
                    then Inr (0, err HexReductionError s)
                  else
                    (case lutHexCuttingQuadNodes (stackJunk E) (fst back) (snd back) of
                       (c0, c1, c2, c3) \<Rightarrow>
                         bindF (prismOnOriginal org_elem [fst back, c0, c3, snd back, c1, c2]) (\<lambda>prism1.
                         bindF (reducePrism E src nodes prism1 5 s min_elem_dim) (\<lambda>(n1, s1).
                         bindF (lutHexDiametralNode (fst back)) (\<lambda>df.
                         bindF (lutHexDiametralNode (snd back)) (\<lambda>ds.
                         bindF (prismOnOriginal org_elem [df, c0, c3, ds, c1, c2]) (\<lambda>prism2.
                         bindF (reducePrism E src nodes prism2 5 s1 min_elem_dim) (\<lambda>(n2, s2).
                           Inr (n1 + n2, s2))))))))))))
     else if n_unique_nodes = 5 then
       bindF (constructFourNodeElement E src nodes org_elem (defaultMinElemDim E)) (\<lambda>elem.
         case elem of
           None \<Rightarrow> Inl BadPointer
         | Some tet1 \<Rightarrow>
             bindF (nodeIDs nodes tet1) (\<lambda>first_four_nodes.
             let fifth_node = findPyramidTopNode ids first_four_nodes;
                 tet_changed = (geomType tet1 = QUAD) in
             bindF (idsAt ids [fifth_node]) (\<lambda>fifth.
             bindF (if tet_changed
                    then bindF (newElem nodes TETRAHEDRON
                                  [first_four_nodes ! 0, first_four_nodes ! 1, first_four_nodes ! 2,
                                   fifth ! 0] (evalue org_elem)) (\<lambda>t. Inr (push t s))
                    else Inr (push tet1 s)) (\<lambda>s1.
             bindF (newElem nodes TETRAHEDRON
                      [if tet_changed then first_four_nodes ! 0 else first_four_nodes ! 1,
                       first_four_nodes ! 2, first_four_nodes ! 3, fifth ! 0] (evalue org_elem)) (\<lambda>tet2.
               Inr (2, push tet2 s1))))))
     else if n_unique_nodes = 4 then
       bindF (constructFourNodeElement E src nodes org_elem min_elem_dim) (\<lambda>elem.
         case elem of Some e \<Rightarrow> Inr (1, push e s) | None \<Rightarrow> Inr (0, s))
     else if n_unique_nodes = 3 \<and> min_elem_dim < 3 then
       bindF (constructTri src nodes org_elem) (\<lambda>e. Inr (1, push e s))
     else if min_elem_dim = 1 then
       bindF (constructLine src nodes org_elem) (\<lambda>e. Inr (1, push e s))
     else Inr (0, s))"

definition reduceElement ::
    "env \<Rightarrow> Node list \<Rightarrow> Node list \<Rightarrow> Element \<Rightarrow> nat \<Rightarrow> out \<Rightarrow> nat \<Rightarrow> fault + out" where
  "reduceElement E src nodes element n_unique_nodes s min_elem_dim =
     (if geomType element = TRIANGLE \<and> min_elem_dim = 1 then
        bindF (constructLine src nodes element) (\<lambda>e. Inr (push e s))
      else if geomType element = QUAD \<or> geomType element = TETRAHEDRON then
        (if n_unique_nodes = 3 \<and> min_elem_dim < 3 then
           bindF (constructTri src nodes element) (\<lambda>e. Inr (push e s))
         else if min_elem_dim = 1 then
           bindF (constructLine src nodes element) (\<lambda>e. Inr (push e s))
         else Inr s)
      else if geomType element = HEXAHEDRON then
        bindF (reduceHex E src nodes element n_unique_nodes s min_elem_dim) (\<lambda>(n, s'). Inr s')
      else if geomType element = PYRAMID then
        reducePyramid E src nodes element n_unique_nodes s min_elem_dim
      else if geomType element = PRISM then
        bindF (reducePrism E src nodes element n_unique_nodes s min_elem_dim) (\<lambda>(n, s'). Inr s')
      else Inr (err UnknownElementType s))"

section \<open>Simplifying a mesh\<close>

text \<open>The loop over the elements of \<^verbatim>\<open>simplifyMesh\<close> either runs on with the elements and
  messages so far, or has left the function through the \<^verbatim>\<open>return nullptr\<close> in its body.\<close>

datatype progress = Running out | Aborted "report list"

definition simplify_step ::
    "env \<Rightarrow> Node list \<Rightarrow> Node list \<Rightarrow> nat \<Rightarrow> progress \<Rightarrow> nat \<times> Element \<Rightarrow> fault + progress" where
  "simplify_step E src new_nodes min_elem_dim st ie =
     (case st of
        Aborted reports \<Rightarrow> Inr (Aborted reports)
      | Running s \<Rightarrow>
          (case ie of (index, elem) \<Rightarrow>
             bindF (nodeIDs src elem) (\<lambda>ids.
             let n_unique_nodes = getNUniqueNodes ids in
             if n_unique_nodes = getNNodes elem \<and> min_elem_dim \<le> getDimension elem then
               (if NonCoplanar \<in> validate E (geomType elem) (map (\<lambda>p. src ! p) (enodes elem)) then
                  bindF (subdivideElement src new_nodes elem s) (\<lambda>(ok, s').
                    if \<not> ok then Inr (Aborted (snd (err (ElementUnknownType index) s')))
                    else Inr (Running s'))
                else bindF (copyElement new_nodes src elem) (\<lambda>c. Inr (Running (push c s))))
             else if n_unique_nodes < getNNodes elem \<and> 1 < n_unique_nodes then
               bindF (reduceElement E src new_nodes elem n_unique_nodes s min_elem_dim)
                 (\<lambda>s'. Inr (Running s'))
             else Inr (Running (err MoreUniqueNodes s)))))"

text \<open>\<open>simplifyMesh\<close> returns the new mesh or no mesh (\<^verbatim>\<open>nullptr\<close>), the node vector of the
  revised mesh as the call leaves it, and the messages it reported.\<close>

definition simplifyMesh ::
    "env \<Rightarrow> string \<Rightarrow> Mesh \<Rightarrow> real \<Rightarrow> nat \<Rightarrow> fault + Mesh option \<times> Node list \<times> report list" where
  "simplifyMesh E new_mesh_name mesh eps min_elem_dim =
     (if length (mesh_elements mesh) = 0 then Inr (None, mesh_nodes mesh, [])
      else
        bindF (collapseNodeIndeces E (mesh_nodes mesh) eps) (\<lambda>id_map.
        bindF (constructNewNodesArray (mesh_nodes mesh) id_map) (\<lambda>(src, new_nodes).
        bindF (foldF (simplify_step E src new_nodes min_elem_dim)
                 (zip [0..<length (mesh_elements mesh)] (mesh_elements mesh)) (Running ([], [])))
          (\<lambda>st. case st of
             Aborted reports \<Rightarrow> Inr (None, resetNodeIDs src, reports)
           | Running (new_elements, reports) \<Rightarrow>
               if new_elements \<noteq> []
                 then Inr (Some \<lparr>mesh_name = new_mesh_name, mesh_nodes = new_nodes,
                                 mesh_elements = new_elements\<rparr>,
                           resetNodeIDs src, reports)
               else Inr (None, resetNodeIDs src, reports)))))"

section \<open>The collapse map without the bookkeeping\<close>

text \<open>When the identifier of every node is its position and the grid returns pointers
  to nodes of the mesh, no read of \<^verbatim>\<open>collapseNodeIndeces\<close> leaves its vector, and the three
  nested loops are the following folds over the identifier map: \<open>near k p\<close> is the
  distance test between the nodes \<open>k\<close> and \<open>p\<close>, \<open>cand k\<close> the pointers that the grid
  returns for node \<open>k\<close>.\<close>

definition absorb :: "(nat \<Rightarrow> nat \<Rightarrow> bool) \<Rightarrow> nat \<Rightarrow> nat list \<Rightarrow> nat \<Rightarrow> nat list" where
  "absorb near k m p =
     (if m ! k = m ! p then m
      else if p \<noteq> m ! p then m
      else if near k p then m[p := k]
      else m)"

definition sweep :: "(nat \<Rightarrow> nat \<Rightarrow> bool) \<Rightarrow> (nat \<Rightarrow> nat list) \<Rightarrow> nat list \<Rightarrow> nat \<Rightarrow> nat list" where
  "sweep near cand m k = foldl (absorb near k) m (cand k)"

definition collapse_pure :: "(nat \<Rightarrow> nat \<Rightarrow> bool) \<Rightarrow> (nat \<Rightarrow> nat list) \<Rightarrow> nat \<Rightarrow> nat list" where
  "collapse_pure near cand n = foldl (sweep near cand) [0..<n] [0..<n]"

definition nearby :: "Node list \<Rightarrow> real \<Rightarrow> nat \<Rightarrow> nat \<Rightarrow> bool" where
  "nearby nodes eps k p = dless (sqrDist (coords (nodes ! k)) (coords (nodes ! p))) (fl (eps * eps))"

section \<open>Properties of a grid query\<close>

text \<open>The closed cube of half edge length \<open>h\<close> around \<open>c\<close>.\<close>

definition inCube :: "point \<Rightarrow> real \<Rightarrow> point \<Rightarrow> bool" where
  "inCube c h p =
     (case c of (cx, cy, cz) \<Rightarrow> case p of (x, y, z) \<Rightarrow>
        \<bar>x - cx\<bar> \<le> h \<and> \<bar>y - cy\<bar> \<le> h \<and> \<bar>z - cz\<bar> \<le> h)"

text \<open>\<open>grid_covers\<close>: every node inside the cube is returned. \<open>grid_symmetric\<close>: if
  \<open>p\<close> is returned for the cube around \<open>k\<close>, then \<open>k\<close> is returned for the cube around \<open>p\<close>.
  \<open>grid_monotone\<close>: what is returned for the smaller tolerance is returned for the larger
  one.\<close>

definition grid_covers :: "env \<Rightarrow> Node list \<Rightarrow> real \<Rightarrow> bool" where
  "grid_covers E nodes eps =
     list_all (\<lambda>k. list_all (\<lambda>p. inCube (coords (nodes ! k)) (rnd (eps / 2)) (coords (nodes ! p))
                                 \<longrightarrow> p \<in> set (candidates E nodes eps k)) [0..<length nodes])
       [0..<length nodes]"

definition grid_symmetric :: "env \<Rightarrow> Node list \<Rightarrow> real \<Rightarrow> bool" where
  "grid_symmetric E nodes eps =
     list_all (\<lambda>k. list_all (\<lambda>p. k \<in> set (candidates E nodes eps p)) (candidates E nodes eps k))
       [0..<length nodes]"

definition grid_monotone :: "env \<Rightarrow> Node list \<Rightarrow> real \<Rightarrow> real \<Rightarrow> bool" where
  "grid_monotone E nodes eps1 eps2 =
     list_all (\<lambda>k. list_all (\<lambda>p. p \<in> set (candidates E nodes eps2 k)) (candidates E nodes eps1 k))
       [0..<length nodes]"

section \<open>Two grids\<close>

text \<open>The class \<^verbatim>\<open>GeoLib::Grid\<close> is not among these sources. Two answers to its query, for
  the evaluation of concrete meshes: \<open>oneCellGrid\<close> is a grid that consists of a single
  cell, whose node vector holds every node of the mesh.\<close>

definition oneCellGrid :: "Node list \<Rightarrow> point \<Rightarrow> real \<Rightarrow> nat list list" where
  "oneCellGrid nodes c h = [[0..<length nodes]]"

text \<open>Modelled from the spec: \<^verbatim>\<open>GeoLib::Grid::getPntVecsOfGridCellsIntersectingCube\<close> is
  missing; the spec has the nodes bucketed into a uniform grid and the search look at the
  cells around node \<open>k\<close> that a half-eps cube meets. \<open>cellGrid w\<close> is the grid of cubic cells
  of edge length \<open>w\<close> with a corner at the origin: the cell of a point has, along each
  axis, the index \<open>cellIndex w x\<close>, and the query returns the nodes of the cells whose
  indices lie between those of the two extreme corners of the cube, as one vector in the
  order of the node vector.\<close>

definition cellIndex :: "real \<Rightarrow> real \<Rightarrow> int" where
  "cellIndex w x = \<lfloor>x / w\<rfloor>"

definition cellMeetsCube :: "real \<Rightarrow> point \<Rightarrow> real \<Rightarrow> point \<Rightarrow> bool" where
  "cellMeetsCube w c h p =
     (case c of (cx, cy, cz) \<Rightarrow> case p of (x, y, z) \<Rightarrow>
        cellIndex w (cx - h) \<le> cellIndex w x \<and> cellIndex w x \<le> cellIndex w (cx + h)
        \<and> cellIndex w (cy - h) \<le> cellIndex w y \<and> cellIndex w y \<le> cellIndex w (cy + h)
        \<and> cellIndex w (cz - h) \<le> cellIndex w z \<and> cellIndex w z \<le> cellIndex w (cz + h))"

definition cellGrid :: "real \<Rightarrow> Node list \<Rightarrow> point \<Rightarrow> real \<Rightarrow> nat list list" where
  "cellGrid w nodes c h =
     [filter (\<lambda>p. cellMeetsCube w c h (coords (nodes ! p))) [0..<length nodes]]"

section \<open>Collaborators for the evaluation of concrete meshes\<close>

text \<open>Four points are coplanar when the scalar triple product of the three edge vectors
  at the first point vanishes.\<close>

definition exactCoplanar :: "point \<Rightarrow> point \<Rightarrow> point \<Rightarrow> point \<Rightarrow> bool" where
  "exactCoplanar a b c d =
     (case a of (ax, ay, az) \<Rightarrow> case b of (bx, by, bz) \<Rightarrow>
      case c of (cx, cy, cz) \<Rightarrow> case d of (dx, dy, dz) \<Rightarrow>
        (bx - ax) * ((cy - ay) * (dz - az) - (cz - az) * (dy - ay))
        - (by - ay) * ((cx - ax) * (dz - az) - (cz - az) * (dx - ax))
        + (bz - az) * ((cx - ax) * (dy - ay) - (cy - ay) * (dx - ax)) = 0)"

text \<open>A validation that flags a quadrilateral whose corners are not coplanar and nothing
  else.\<close>

definition planarValidate :: "MeshElemType \<Rightarrow> Node list \<Rightarrow> ElementErrorFlag set" where
  "planarValidate t ns =
     (if t = QUAD \<and> length ns = 4
         \<and> \<not> exactCoplanar (coords (ns ! 0)) (coords (ns ! 1)) (coords (ns ! 2)) (coords (ns ! 3))
      then {NonCoplanar} else {})"

text \<open>A validation for quadrilaterals in the plane \<open>z = 0\<close> that flags a quadrilateral as
  not convex unless its boundary turns the same way at all four corners; \<open>turn a b c\<close> is
  the cross product of the edges from \<open>a\<close> to \<open>b\<close> and from \<open>b\<close> to \<open>c\<close>.\<close>

definition turn :: "point \<Rightarrow> point \<Rightarrow> point \<Rightarrow> real" where
  "turn a b c =
     (case a of (ax, ay, az) \<Rightarrow> case b of (bx, by, bz) \<Rightarrow> case c of (cx, cy, cz) \<Rightarrow>
        (bx - ax) * (cy - by) - (by - ay) * (cx - bx))"

definition convexValidate :: "MeshElemType \<Rightarrow> Node list \<Rightarrow> ElementErrorFlag set" where
  "convexValidate t ns =
     (if t = QUAD \<and> length ns = 4 then
        (let t0 = turn (coords (ns ! 0)) (coords (ns ! 1)) (coords (ns ! 2));
             t1 = turn (coords (ns ! 1)) (coords (ns ! 2)) (coords (ns ! 3));
             t2 = turn (coords (ns ! 2)) (coords (ns ! 3)) (coords (ns ! 0));
             t3 = turn (coords (ns ! 3)) (coords (ns ! 0)) (coords (ns ! 1)) in
         if (0 < t0 \<and> 0 < t1 \<and> 0 < t2 \<and> 0 < t3) \<or> (t0 < 0 \<and> t1 < 0 \<and> t2 < 0 \<and> t3 < 0)
         then {} else {NonConvex})
      else {})"

text \<open>The faces and edges of a hexahedron with the bottom ring 0-1-2-3 and the top ring
  4-5-6-7, in the layout of the prism's tables in TemplatePrism-impl.h.\<close>

definition hex_face_nodes :: "nat list list" where
  "hex_face_nodes =
     [[0, 3, 2, 1], [0, 1, 5, 4], [1, 2, 6, 5], [2, 3, 7, 6], [3, 0, 4, 7], [4, 5, 6, 7]]"

definition hex_edge_nodes :: "(nat \<times> nat) list" where
  "hex_edge_nodes =
     [(0, 1), (1, 2), (2, 3), (0, 3), (4, 5), (5, 6), (6, 7), (4, 7),
      (0, 4), (1, 5), (2, 6), (3, 7)]"

definition refEnv :: "(Node list \<Rightarrow> point \<Rightarrow> real \<Rightarrow> nat list list) \<Rightarrow> env" where
  "refEnv g =
     \<lparr>gridQuery = g,
      validate = planarValidate,
      isCoplanar = exactCoplanar,
      hexFaceNodes = (\<lambda>i. hex_face_nodes ! i),
      hexIsEdge = (\<lambda>i j. List.member hex_edge_nodes (i, j) \<or> List.member hex_edge_nodes (j, i)),
      defaultMinElemDim = 1,
      stackJunk = (0, 0, 0, 0)\<rparr>"

definition nodeAtX :: "nat \<Rightarrow> real \<Rightarrow> Node" where
  "nodeAtX i x = \<lparr>ID = i, coords = (x, 0, 0)\<rparr>"

text \<open>Three nodes on a line, the third between the first two.\<close>

definition chain_nodes :: "Node list" where
  "chain_nodes = [nodeAtX 0 0, nodeAtX 1 4, nodeAtX 2 2]"

definition nodeAtXYZ :: "nat \<Rightarrow> real \<Rightarrow> real \<Rightarrow> real \<Rightarrow> Node" where
  "nodeAtXYZ i x y z = \<lparr>ID = i, coords = (x, y, z)\<rparr>"

text \<open>A cube of edge length 4 whose corners 0, 1 and 2, 3 coincide in pairs, so that two
  opposite edges of its bottom face have collapsed; the same cube with the corners 0, 3
  and 1, 2 coinciding; and the hexahedron on these eight nodes.\<close>

definition pinched_cube :: "Node list" where
  "pinched_cube =
     [nodeAtXYZ 0 0 0 0, nodeAtXYZ 1 0 0 0, nodeAtXYZ 2 0 4 0, nodeAtXYZ 3 0 4 0,
      nodeAtXYZ 4 0 0 4, nodeAtXYZ 5 4 0 4, nodeAtXYZ 6 4 4 4, nodeAtXYZ 7 0 4 4]"

definition pinched_cube' :: "Node list" where
  "pinched_cube' =
     [nodeAtXYZ 0 0 0 0, nodeAtXYZ 1 4 0 0, nodeAtXYZ 2 4 0 0, nodeAtXYZ 3 0 0 0,
      nodeAtXYZ 4 0 0 4, nodeAtXYZ 5 4 0 4, nodeAtXYZ 6 4 4 4, nodeAtXYZ 7 0 4 4]"

definition the_hex :: Element where
  "the_hex = mkElement HEXAHEDRON [0, 1, 2, 3, 4, 5, 6, 7] 9"

text \<open>The node vector of the first cube as \<^verbatim>\<open>constructNewNodesArray\<close> leaves it, and the new
  node vector.\<close>

definition pinched_src :: "Node list" where
  "pinched_src =
     [nodeAtXYZ 0 0 0 0, nodeAtXYZ 0 0 0 0, nodeAtXYZ 1 0 4 0, nodeAtXYZ 1 0 4 0,
      nodeAtXYZ 2 0 0 4, nodeAtXYZ 3 4 0 4, nodeAtXYZ 4 4 4 4, nodeAtXYZ 5 0 4 4]"

definition pinched_new :: "Node list" where
  "pinched_new =
     [nodeAtXYZ 0 0 0 0, nodeAtXYZ 1 0 4 0, nodeAtXYZ 2 0 0 4, nodeAtXYZ 3 4 0 4,
      nodeAtXYZ 4 4 4 4, nodeAtXYZ 5 0 4 4]"

text \<open>A triangle and, apart from it, a line element whose two end points coincide.\<close>

definition tri_and_line :: Mesh where
  "tri_and_line =
     \<lparr>mesh_name = ''mesh'',
      mesh_nodes = [nodeAtXYZ 0 0 0 0, nodeAtXYZ 1 4 0 0, nodeAtXYZ 2 0 4 0,
                    nodeAtXYZ 3 8 8 0, nodeAtXYZ 4 8 8 0],
      mesh_elements = [mkElement TRIANGLE [0, 1, 2] 9, mkElement LINE [3, 4] 5]\<rparr>"

text \<open>The node vector of that mesh after \<^verbatim>\<open>constructNewNodesArray\<close>, and the new node
  vector.\<close>

definition tri_and_line_src :: "Node list" where
  "tri_and_line_src =
     [nodeAtXYZ 0 0 0 0, nodeAtXYZ 1 4 0 0, nodeAtXYZ 2 0 4 0, nodeAtXYZ 3 8 8 0, nodeAtXYZ 3 8 8 0]"

definition tri_and_line_new :: "Node list" where
  "tri_and_line_new =
     [nodeAtXYZ 0 0 0 0, nodeAtXYZ 1 4 0 0, nodeAtXYZ 2 0 4 0, nodeAtXYZ 3 8 8 0]"

text \<open>A pyramid over a square whose apex has been collapsed onto the corner 0 of its base
  (node vector of the revised mesh, with the identifiers after the collapse), a pyramid
  with a proper apex whose base corners 0 and 1 have been collapsed, and the new node
  vectors of both.\<close>

definition flat_pyramid_src :: "Node list" where
  "flat_pyramid_src =
     [nodeAtXYZ 0 0 0 0, nodeAtXYZ 1 4 0 0, nodeAtXYZ 2 4 4 0, nodeAtXYZ 3 0 4 0, nodeAtXYZ 0 0 0 0]"

definition flat_pyramid_new :: "Node list" where
  "flat_pyramid_new =
     [nodeAtXYZ 0 0 0 0, nodeAtXYZ 1 4 0 0, nodeAtXYZ 2 4 4 0, nodeAtXYZ 3 0 4 0]"

definition steep_pyramid_src :: "Node list" where
  "steep_pyramid_src =
     [nodeAtXYZ 0 0 0 0, nodeAtXYZ 0 0 0 0, nodeAtXYZ 1 4 4 0, nodeAtXYZ 2 0 4 0, nodeAtXYZ 3 2 2 4]"

definition steep_pyramid_new :: "Node list" where
  "steep_pyramid_new =
     [nodeAtXYZ 0 0 0 0, nodeAtXYZ 1 4 4 0, nodeAtXYZ 2 0 4 0, nodeAtXYZ 3 2 2 4]"

definition the_pyramid :: Element where
  "the_pyramid = mkElement PYRAMID [0, 1, 2, 3, 4] 9"

text \<open>Two more pyramids whose apex has been collapsed onto the corner 0 of the base. The
  four unique nodes of the first are the corners of a square, met in the order
  \<open>(0,0), (0,4), (4,0), (4,4)\<close>: only the third order that \<^verbatim>\<open>constructFourNodeElement\<close>
  builds runs around the square. The four unique nodes of the second are
  \<open>(0,0), (4,0), (1,1), (0,4)\<close>; the third lies inside the triangle of the others, so no
  order of the four is a convex quadrilateral.\<close>

definition crossed_pyramid_src :: "Node list" where
  "crossed_pyramid_src =
     [nodeAtXYZ 0 0 0 0, nodeAtXYZ 1 0 4 0, nodeAtXYZ 2 4 0 0, nodeAtXYZ 3 4 4 0, nodeAtXYZ 0 0 0 0]"

definition crossed_pyramid_new :: "Node list" where
  "crossed_pyramid_new =
     [nodeAtXYZ 0 0 0 0, nodeAtXYZ 1 0 4 0, nodeAtXYZ 2 4 0 0, nodeAtXYZ 3 4 4 0]"

definition dart_pyramid_src :: "Node list" where
  "dart_pyramid_src =
     [nodeAtXYZ 0 0 0 0, nodeAtXYZ 1 4 0 0, nodeAtXYZ 2 1 1 0, nodeAtXYZ 3 0 4 0, nodeAtXYZ 0 0 0 0]"

definition dart_pyramid_new :: "Node list" where
  "dart_pyramid_new =
     [nodeAtXYZ 0 0 0 0, nodeAtXYZ 1 4 0 0, nodeAtXYZ 2 1 1 0, nodeAtXYZ 3 0 4 0]"

text \<open>Node vectors for the collapse search. \<open>apart_nodes\<close>: the first two nodes are 3
  apart along the x axis, the third is at distance above 4 from both. \<open>rounding_nodes\<close>
  and \<open>rounding_eps\<close>: two nodes whose squared distance \<open>1 + 2 / 2 ^ 52\<close> is a double, and a
  tolerance whose square is not. \<open>cycle_nodes\<close>: three nodes on the x axis at 0, 1 and
  4.\<close>

definition apart_nodes :: "Node list" where
  "apart_nodes = [nodeAtXYZ 0 1 0 0, nodeAtXYZ 1 4 0 0, nodeAtXYZ 2 3 3 3]"

definition rounding_nodes :: "Node list" where
  "rounding_nodes = [nodeAtXYZ 0 0 0 0, nodeAtXYZ 1 1 (1 / 2 ^ 26) (1 / 2 ^ 26)]"

definition rounding_eps :: real where
  "rounding_eps = 1 + 1 / 2 ^ 52"

definition cycle_nodes :: "Node list" where
  "cycle_nodes = [nodeAtX 0 0, nodeAtX 1 1, nodeAtX 2 4]"
section \<open>Properties of the double arithmetic\<close>

lemma rne_of_int: "rne (of_int n) = n"
  by (simp add: rne_def)

lemma rne_lower: "\<lfloor>q\<rfloor> \<le> rne q"
  by (simp add: rne_def Let_def)

lemma rne_upper: "rne q \<le> \<lfloor>q\<rfloor> + 1"
  by (simp add: rne_def Let_def)

lemma rne_ge: "of_int n \<le> q \<Longrightarrow> n \<le> rne q"
  using rne_lower[of q] by (simp add: le_floor_iff[symmetric])

lemma rne_le: "q \<le> of_int n \<Longrightarrow> rne q \<le> n"
proof (cases "q = of_int n")
  case True
  then show ?thesis by (simp add: rne_of_int)
next
  case False
  assume "q \<le> of_int n"
  with False have "q < of_int n" by simp
  then have "\<lfloor>q\<rfloor> < n" by (simp add: floor_less_iff)
  then show ?thesis using rne_upper[of q] by simp
qed

lemma rne_mono: "q \<le> q' \<Longrightarrow> rne q \<le> rne q'"
proof -
  assume le: "q \<le> q'"
  then have f: "\<lfloor>q\<rfloor> \<le> \<lfloor>q'\<rfloor>" by (rule floor_mono)
  show ?thesis
  proof (cases "\<lfloor>q\<rfloor> = \<lfloor>q'\<rfloor>")
    case True
    then show ?thesis using le by (auto simp: rne_def Let_def)
  next
    case False
    then have "\<lfloor>q\<rfloor> + 1 \<le> \<lfloor>q'\<rfloor>" using f by simp
    then show ?thesis using rne_upper[of q] rne_lower[of q'] by simp
  qed
qed

lemma ulp_pos: "0 < ulp x"
  by (simp add: ulp_def)

lemma rndpos_nonneg: "0 \<le> x \<Longrightarrow> 0 \<le> rndpos x"
proof -
  assume "0 \<le> x"
  then have "0 \<le> x / ulp x" using ulp_pos[of x] by simp
  then have "0 \<le> rne (x / ulp x)" using rne_ge[of 0] by simp
  then show ?thesis using ulp_pos[of x] by (simp add: rndpos_def)
qed

lemma expo_mono: "0 < x \<Longrightarrow> x \<le> y \<Longrightarrow> expo x \<le> expo y"
proof -
  assume "0 < x" "x \<le> y"
  then have "log 2 x \<le> log 2 y" by simp
  then have "\<lfloor>log 2 x\<rfloor> \<le> \<lfloor>log 2 y\<rfloor>" by (rule floor_mono)
  then show ?thesis by (simp add: expo_def)
qed

lemma below_next_power: "0 < x \<Longrightarrow> x < 2 powr (of_int (expo x) + 1)"
proof -
  assume x: "0 < x"
  have "x < 2 powr (of_int \<lfloor>log 2 x\<rfloor> + 1)"
    using floor_log_eq_powr_iff[of x 2 "\<lfloor>log 2 x\<rfloor>"] x by simp
  also have "\<dots> \<le> 2 powr (of_int (expo x) + 1)"
    by (simp add: expo_def)
  finally show ?thesis .
qed

lemma above_power: "0 < x \<Longrightarrow> - 1022 \<le> \<lfloor>log 2 x\<rfloor> \<Longrightarrow> 2 powr (of_int (expo x)) \<le> x"
proof -
  assume x: "0 < x" and e: "- 1022 \<le> \<lfloor>log 2 x\<rfloor>"
  have "2 powr (of_int \<lfloor>log 2 x\<rfloor>) \<le> x"
    using floor_log_eq_powr_iff[of x 2 "\<lfloor>log 2 x\<rfloor>"] x by simp
  moreover have "expo x = \<lfloor>log 2 x\<rfloor>" using e by (simp add: expo_def)
  ultimately show ?thesis by simp
qed

lemma two_powr_53: "(2::real) powr 53 = of_int (2 ^ 53)"
  by simp

lemma two_powr_52: "(2::real) powr 52 = of_int (2 ^ 52)"
  by simp

lemma rndpos_le_top:
  assumes x: "0 < x"
  shows "rndpos x \<le> 2 powr (of_int (expo x) + 1)"
proof -
  have "x / ulp x < 2 powr (of_int (expo x) + 1) / ulp x"
    using below_next_power[OF x] ulp_pos[of x] by (simp add: divide_strict_right_mono)
  also have "2 powr (of_int (expo x) + 1) / ulp x = 2 powr 53"
    by (simp add: ulp_def powr_diff[symmetric])
  finally have "x / ulp x < 2 powr 53" .
  then have "x / ulp x \<le> of_int (2 ^ 53)" unfolding two_powr_53 by (rule less_imp_le)
  then have "rne (x / ulp x) \<le> 2 ^ 53" by (rule rne_le)
  then have "of_int (rne (x / ulp x)) \<le> (2::real) powr 53" by (simp only: two_powr_53 of_int_le_iff)
  then have "rndpos x \<le> 2 powr 53 * ulp x"
    using ulp_pos[of x] by (simp add: rndpos_def)
  also have "2 powr 53 * ulp x = 2 powr (of_int (expo x) + 1)"
    by (simp only: ulp_def powr_add[symmetric]) (simp add: add.commute)
  finally show ?thesis .
qed

lemma rndpos_ge_bot:
  assumes x: "0 < x" and e: "- 1022 \<le> \<lfloor>log 2 x\<rfloor>"
  shows "2 powr (of_int (expo x)) \<le> rndpos x"
proof -
  have "2 powr (of_int (expo x)) / ulp x \<le> x / ulp x"
    using above_power[OF x e] ulp_pos[of x] by (simp add: divide_right_mono)
  moreover have "2 powr (of_int (expo x)) / ulp x = 2 powr 52"
    by (simp add: ulp_def powr_diff[symmetric])
  ultimately have "of_int (2 ^ 52) \<le> x / ulp x" by (simp only: two_powr_52)
  then have "2 ^ 52 \<le> rne (x / ulp x)" by (rule rne_ge)
  then have "(2::real) powr 52 \<le> of_int (rne (x / ulp x))" by (simp only: two_powr_52 of_int_le_iff)
  then have "2 powr 52 * ulp x \<le> rndpos x"
    using ulp_pos[of x] by (simp add: rndpos_def)
  moreover have "2 powr 52 * ulp x = 2 powr (of_int (expo x))"
    by (simp only: ulp_def powr_add[symmetric]) simp
  ultimately show ?thesis by simp
qed

lemma rndpos_mono:
  assumes x: "0 < x" and le: "x \<le> y"
  shows "rndpos x \<le> rndpos y"
proof (cases "expo x = expo y")
  case True
  then have u: "ulp x = ulp y" by (simp add: ulp_def)
  have "x / ulp y \<le> y / ulp y" using le ulp_pos[of y] by (simp add: divide_right_mono)
  then have "rne (x / ulp y) \<le> rne (y / ulp y)" by (rule rne_mono)
  then show ?thesis using ulp_pos[of y] by (simp add: rndpos_def u)
next
  case False
  have y: "0 < y" using x le by simp
  have lt: "expo x < expo y" using expo_mono[OF x le] False by simp
  then have ey: "- 1022 \<le> \<lfloor>log 2 y\<rfloor>" by (auto simp: expo_def max_def split: if_splits)
  have "rndpos x \<le> 2 powr (of_int (expo x) + 1)" by (rule rndpos_le_top[OF x])
  also have "\<dots> \<le> 2 powr (of_int (expo y))" using lt by simp
  also have "\<dots> \<le> rndpos y" by (rule rndpos_ge_bot[OF y ey])
  finally show ?thesis .
qed

lemma rnd_mono_nonneg: "0 \<le> x \<Longrightarrow> x \<le> y \<Longrightarrow> rnd x \<le> rnd y"
  using rndpos_mono[of x y] rndpos_nonneg[of y] by (auto simp: rnd_def)

lemma rnd_nonneg: "0 \<le> x \<Longrightarrow> 0 \<le> rnd x"
  using rndpos_nonneg[of x] by (simp add: rnd_def)

lemma rnd_minus: "rnd (- x) = - rnd x"
  by (simp add: rnd_def)

lemma rne_half_up: "of_int f \<le> q \<Longrightarrow> q < of_int f + 1 / 2 \<Longrightarrow> rne q = f"
proof -
  assume a: "of_int f \<le> q" "q < of_int f + 1 / 2"
  then have "\<lfloor>q\<rfloor> = f" by (intro floor_unique) auto
  then show ?thesis using a by (simp add: rne_def)
qed

lemma expoI: "2 powr (of_int k) \<le> (x::real) \<Longrightarrow> x < 2 powr (of_int k + 1) \<Longrightarrow> - 1022 \<le> k \<Longrightarrow> expo x = k"
proof -
  assume a: "2 powr (of_int k) \<le> x" "x < 2 powr (of_int k + 1)" "- 1022 \<le> k"
  have "(0::real) < 2 powr (of_int k)" by simp
  then have "0 < x" using a(1) by (rule less_le_trans)
  then have "\<lfloor>log 2 x\<rfloor> = k" using a(1,2) by (simp add: floor_log_eq_powr_iff)
  then show ?thesis using a(3) by (simp add: expo_def)
qed

lemma expo_subnormal: "0 < x \<Longrightarrow> x < 2 powr (- 1022) \<Longrightarrow> expo x = - 1022"
proof -
  assume a: "0 < x" "x < 2 powr (- 1022)"
  have "\<lfloor>log 2 x\<rfloor> < - 1022"
  proof -
    have "log 2 x < - 1022" using a by (simp add: log_less_iff)
    then show ?thesis by (simp add: floor_less_iff)
  qed
  then show ?thesis by (simp add: expo_def)
qed

text \<open>A number \<open>m * 2 ^ i\<close> with \<open>m\<close> below \<open>2 ^ 53\<close> and \<open>i\<close> not below \<open>- 1074\<close> is a double.\<close>

lemma rndpos_exact:
  assumes m: "0 < m" "m < 2 ^ 53" and i: "- 1074 \<le> i"
  shows "rndpos (of_int m * 2 powr (of_int i)) = of_int m * 2 powr (of_int i)"
proof -
  define x :: real where "x = of_int m * 2 powr (of_int i)"
  have x: "0 < x" using m by (simp add: x_def)
  have up: "x < 2 powr (of_int i + 53)"
  proof -
    have "of_int m < (2::real) powr 53" using m(2) unfolding two_powr_53 by (simp only: of_int_less_iff)
    then have "x < 2 powr 53 * 2 powr (of_int i)" by (simp add: x_def)
    then show ?thesis by (simp only: powr_add[symmetric] add.commute)
  qed
  have "expo x \<le> i + 52"
  proof -
    have "log 2 x < of_int i + 53" using up x by (simp add: log_less_iff)
    then have "\<lfloor>log 2 x\<rfloor> < i + 53" by (simp add: floor_less_iff)
    then show ?thesis using i by (simp add: expo_def)
  qed
  then obtain j :: nat where j: "i + 52 = expo x + int j"
    by (metis zle_iff_zadd)
  have e1074: "- 1074 \<le> expo x - 52" by (simp add: expo_def)
  have u: "ulp x = 2 powr (of_int i) / 2 ^ j"
  proof -
    have "of_int (expo x) - 52 = of_int i - real j" using j by (simp add: algebra_simps)
    then have "ulp x = 2 powr (of_int i - real j)" by (simp add: ulp_def)
    then show ?thesis by (simp add: powr_diff powr_realpow)
  qed
  have "x / ulp x = x / (2 powr (of_int i) / 2 ^ j)" by (simp only: u)
  also have "\<dots> = of_int (m * 2 ^ j)" by (simp add: x_def)
  finally have "rne (x / ulp x) = m * 2 ^ j" by (simp only: rne_of_int)
  then have "rndpos x = of_int (m * 2 ^ j) * ulp x" by (simp add: rndpos_def)
  also have "\<dots> = of_int (m * 2 ^ j) * (2 powr (of_int i) / 2 ^ j)" by (simp only: u)
  also have "\<dots> = x" by (simp add: x_def)
  finally show ?thesis by (simp only: x_def)
qed

lemma rnd_exact:
  assumes m: "\<bar>m\<bar> < 2 ^ 53" and i: "- 1074 \<le> i"
  shows "rnd (of_int m * 2 powr (of_int i)) = of_int m * 2 powr (of_int i)"
proof -
  consider "m = 0" | "0 < m" | "m < 0" by linarith
  then show ?thesis
  proof cases
    case 1
    then show ?thesis by (simp add: rnd_def)
  next
    case 2
    then have "0 < of_int m * (2::real) powr (of_int i)" by simp
    then show ?thesis using rndpos_exact[OF 2 _ i] m 2 by (simp add: rnd_def)
  next
    case 3
    then have p: "0 < - m" "- m < 2 ^ 53" using m by simp_all
    have "of_int m * (2::real) powr (of_int i) < 0" using 3 by (simp add: mult_neg_pos)
    then show ?thesis using rndpos_exact[OF p i] by (simp add: rnd_def)
  qed
qed

lemma rnd_of_int: "\<bar>m\<bar> < 2 ^ 53 \<Longrightarrow> rnd (of_int m) = of_int m"
  using rnd_exact[of m 0] by simp

lemma rnd_numeral: "numeral w < (2::int) ^ 53 \<Longrightarrow> rnd (numeral w) = numeral w"
  using rnd_of_int[of "numeral w"] by simp

lemma rnd_neg_numeral: "numeral w < (2::int) ^ 53 \<Longrightarrow> rnd (- numeral w) = - numeral w"
  using rnd_of_int[of "- numeral w"] by simp

lemma rnd_0: "rnd 0 = 0"
  by (simp add: rnd_def)

lemma rnd_1: "rnd 1 = 1"
  using rnd_of_int[of 1] by simp

lemma fl_minus: "fl (- x) = dneg (fl x)"
  by (simp add: fl_def rnd_minus Let_def)

lemma dsqr_dneg: "dsqr (dneg d) = dsqr d"
  by (cases d) simp_all

lemma fl_numeral: "numeral w < (2::int) ^ 53 \<Longrightarrow> fl (numeral w) = Finite (numeral w)"
proof -
  assume a: "numeral w < (2::int) ^ 53"
  then have "(numeral w :: int) < 2 ^ 1024" by (rule less_trans) simp
  then have "(of_int (numeral w) :: real) < of_int (2 ^ 1024)" by (simp only: of_int_less_iff)
  then have "(numeral w :: real) < 2 ^ 1024" by simp
  moreover have "- (2 ^ 1024) < (numeral w :: real)"
    by (rule less_trans[of _ 0]) simp_all
  ultimately show ?thesis using a by (simp add: fl_def Let_def not_le rnd_numeral)
qed

lemma fl_neg_numeral:
  "numeral w < (2::int) ^ 53 \<Longrightarrow> fl (- numeral w) = Finite (- numeral w)"
  using fl_numeral[of w] fl_minus[of "numeral w"] by simp

lemma fl_0: "fl 0 = Finite 0"
  by (simp add: fl_def rnd_0)

lemma fl_1: "fl 1 = Finite 1"
  by (simp add: fl_def rnd_1)

lemma dless_fl_mono:
  assumes "0 \<le> x" "x \<le> y" "dless d (fl x)"
  shows "dless d (fl y)"
proof -
  have m: "rnd x \<le> rnd y" using assms(1,2) by (rule rnd_mono_nonneg)
  have n: "0 \<le> rnd x" using assms(1) by (rule rnd_nonneg)
  show ?thesis
    using assms(3) m n by (cases d) (auto simp: fl_def Let_def split: if_splits)
qed

lemma rnd_down:
  assumes k: "2 powr (of_int k) \<le> x" "x < 2 powr (of_int k + 1)" "- 1022 \<le> k"
    and f: "of_int f \<le> x / 2 powr (of_int k - 52)" "x / 2 powr (of_int k - 52) < of_int f + 1 / 2"
  shows "rnd x = of_int f * 2 powr (of_int k - 52)"
proof -
  have "(0::real) < 2 powr (of_int k)" by simp
  then have x: "0 < x" using k(1) by (rule less_le_trans)
  have e: "expo x = k" using k by (rule expoI)
  have "rne (x / ulp x) = f" using f by (simp add: ulp_def e rne_half_up)
  then show ?thesis using x by (simp add: rnd_def rndpos_def ulp_def e)
qed

lemma sqrDist_sym: "sqrDist p q = sqrDist q p"
proof -
  have s: "dsqr (fl (a - b)) = dsqr (fl (b - a))" for a b :: real
    using fl_minus[of "b - a"] dsqr_dneg[of "fl (b - a)"] by simp
  show ?thesis
    by (cases p, cases q) (simp add: sqrDist_def s[of "fst p" "fst q"] s)
qed

lemma fl_exact:
  assumes m: "\<bar>m\<bar> < 2 ^ 53" and i: "- 1074 \<le> i" "i \<le> 971"
  shows "fl (of_int m * 2 powr (of_int i)) = Finite (of_int m * 2 powr (of_int i))"
proof -
  have "\<bar>of_int m * 2 powr (of_int i)\<bar> = of_int \<bar>m\<bar> * (2::real) powr (of_int i)"
    by (simp add: abs_mult)
  also have "\<dots> < of_int (2 ^ 53) * 2 powr (of_int i)"
  proof (rule mult_strict_right_mono)
    show "real_of_int \<bar>m\<bar> < of_int (2 ^ 53)" using m by (simp only: of_int_less_iff)
    show "(0::real) < 2 powr (of_int i)" by simp
  qed
  also have "\<dots> = 2 powr (53 + of_int i)"
    by (simp only: two_powr_53[symmetric] powr_add)
  also have "\<dots> \<le> 2 powr 1024"
  proof (rule powr_mono)
    show "53 + real_of_int i \<le> 1024" using i(2) by simp
    show "(1::real) \<le> 2" by simp
  qed
  finally have "\<bar>of_int m * (2::real) powr (of_int i)\<bar> < 2 ^ 1024" by simp
  then show ?thesis using rnd_exact[OF m i(1)] by (simp add: fl_def Let_def abs_less_iff not_le)
qed

text \<open>The square of \<open>1 + 1 / 2 ^ 52\<close> lies less than half a unit in the last place
  above the double \<open>1 + 2 / 2 ^ 52\<close> and is rounded down to it.\<close>

lemma fl_rounding_eps:
  "fl (rounding_eps * rounding_eps) = Finite (1 + 1 / 2 ^ 51)"
proof -
  have "rnd ((1 + 1 / 2 ^ 52) * (1 + 1 / 2 ^ 52)) = of_int (2 ^ 52 + 2) * 2 powr (of_int 0 - 52)"
    by (rule rnd_down) (simp_all add: powr_neg_numeral)
  also have "\<dots> = 1 + 1 / 2 ^ 51" by (simp add: powr_neg_numeral)
  finally show ?thesis by (simp add: fl_def Let_def rounding_eps_def)
qed

lemma sqrDist_rounding_nodes:
  "sqrDist (0, 0, 0) (1, 1 / 2 ^ 26, 1 / 2 ^ 26) = Finite (1 + 1 / 2 ^ 51)"
proof -
  have a: "fl (1 / 2 ^ 26) = Finite (1 / 2 ^ 26)"
    using fl_exact[of 1 "- 26"] by (simp add: powr_neg_numeral)
  have b: "fl (1 / 2 ^ 52) = Finite (1 / 2 ^ 52)"
    using fl_exact[of 1 "- 52"] by (simp add: powr_neg_numeral)
  have c: "fl (1 + 1 / 2 ^ 52) = Finite (1 + 1 / 2 ^ 52)"
    using fl_exact[of "2 ^ 52 + 1" "- 52"] by (simp add: powr_neg_numeral)
  have d: "fl (1 + 1 / 2 ^ 52 + 1 / 2 ^ 52) = Finite (1 + 1 / 2 ^ 51)"
    using fl_exact[of "2 ^ 52 + 2" "- 52"] by (simp add: powr_neg_numeral)
  have e: "(1 / 2 ^ 26) * (1 / 2 ^ 26) = (1 / 2 ^ 52 :: real)" by simp
  have "sqrDist (0, 0, 0) (1, 1 / 2 ^ 26, 1 / 2 ^ 26)
      = dadd (dadd (dsqr (fl 1)) (dsqr (fl (1 / 2 ^ 26)))) (dsqr (fl (1 / 2 ^ 26)))"
    by (simp add: sqrDist_def)
  also have "\<dots> = dadd (dadd (Finite 1) (fl ((1 / 2 ^ 26) * (1 / 2 ^ 26)))) (fl ((1 / 2 ^ 26) * (1 / 2 ^ 26)))"
    using a by (simp add: fl_1)
  also have "\<dots> = dadd (dadd (Finite 1) (Finite (1 / 2 ^ 52))) (Finite (1 / 2 ^ 52))"
    by (simp only: e b)
  also have "\<dots> = Finite (1 + 1 / 2 ^ 51)"
    by (simp only: dadd.simps c d)
  finally show ?thesis .
qed

lemma rnd_neg_1: "rnd (- 1) = - 1"
  using rnd_of_int[of "- 1"] by simp

lemma fl_neg_1: "fl (- 1) = Finite (- 1)"
  using fl_minus[of 1] by (simp add: fl_1)

lemmas eval_double = rnd_numeral rnd_neg_numeral rnd_0 rnd_1 rnd_neg_1
  fl_numeral fl_neg_numeral fl_0 fl_1 fl_neg_1 sqrDist_def

section \<open>Properties of the topology tables\<close>

lemma lutHexDiametralNode_involution:
  "i < 8 \<Longrightarrow> bindF (lutHexDiametralNode i) lutHexDiametralNode = Inr i"
  unfolding lutHexDiametralNode_def hex_diametral_nodes_def bindF_def
  by (auto simp: less_Suc_eq numeral_eq_Suc)

lemma lutHexCuttingQuadNodes_table:
  "(id1, id2) \<in> set cutting_quad_pairs \<Longrightarrow>
     lutHexCuttingQuadNodes n1 id1 id2 = lutHexCuttingQuadNodes n2 id1 id2"
  unfolding cutting_quad_pairs_def
  by (simp, elim disjE; simp add: lutHexCuttingQuadNodes_def)

lemma lutHexCuttingQuadNodes_outside:
  "(id1, id2) \<notin> set cutting_quad_pairs \<Longrightarrow> lutHexCuttingQuadNodes junk id1 id2 = junk"
  unfolding cutting_quad_pairs_def lutHexCuttingQuadNodes_def
  by (simp only: set_simps insert_iff empty_iff prod.inject de_Morgan_disj simp_thms if_False
      split: if_splits)

text \<open>C3. \<^verbatim>\<open>lutPrismThirdNode\<close> at two ordered pairs of the bottom triangle \<open>{0,1,2}\<close>: for
  \<open>(1,2)\<close> the first branch answers 2, one of the two arguments, where the third node of
  the face is 0; for \<open>(1,0)\<close> no branch matches and the sentinel is returned, where the
  third node is 2. The remaining ten ordered pairs of the two triangles are answered with
  the third node of their face.\<close>

theorem lutPrismThirdNode_1_2_and_1_0:
  "lutPrismThirdNode 1 2 = 2 \<and> lutPrismThirdNode 1 0 = unsigned_max
   \<and> lutPrismThirdNode 0 1 = 2 \<and> lutPrismThirdNode 2 1 = 0
   \<and> lutPrismThirdNode 0 2 = 1 \<and> lutPrismThirdNode 2 0 = 1
   \<and> lutPrismThirdNode 3 4 = 5 \<and> lutPrismThirdNode 4 3 = 5
   \<and> lutPrismThirdNode 4 5 = 3 \<and> lutPrismThirdNode 5 4 = 3
   \<and> lutPrismThirdNode 3 5 = 4 \<and> lutPrismThirdNode 5 3 = 4"
  by (simp add: lutPrismThirdNode_def)

text \<open>C7. For a pair of corners that is not one of the 24 table entries,
  \<^verbatim>\<open>lutHexCuttingQuadNodes\<close> returns its local array as it found it: the four values are
  whatever the storage held, with nothing that tells the caller so. At the face diagonal
  \<open>(0,2)\<close> and the space diagonal \<open>(0,6)\<close> the result can therefore be any four values, for
  instance the entry of the edge \<open>(0,1)\<close>.\<close>

theorem lutHexCuttingQuadNodes_no_entry:
  "lutHexCuttingQuadNodes junk 0 2 = junk \<and> lutHexCuttingQuadNodes junk 0 6 = junk
   \<and> lutHexCuttingQuadNodes (3, 2, 5, 4) 0 2 = lutHexCuttingQuadNodes junk 0 1"
  by (simp add: lutHexCuttingQuadNodes_def)

section \<open>The fault monad\<close>

lemma bindF_Inr: "bindF (Inr x) f = f x"
  by (simp add: bindF_def)

lemma bindF_Inl: "bindF (Inl e) f = Inl e"
  by (simp add: bindF_def)

lemma bindF_assoc: "bindF (bindF m f) g = bindF m (\<lambda>x. bindF (f x) g)"
  by (cases m) (simp_all add: bindF_def)

lemma bindF_eq_Inr:
  "bindF m f = Inr y \<longleftrightarrow> (\<exists>x. m = Inr x \<and> f x = Inr y)"
  by (cases m) (simp_all add: bindF_def)

lemma foldF_append:
  "foldF f (xs @ ys) s = bindF (foldF f xs s) (foldF f ys)"
  by (induction xs arbitrary: s) (auto simp: bindF_def split: sum.splits)

lemma foldF_concat:
  "foldF (\<lambda>m c. foldF g c m) cells m = foldF g (concat cells) m"
  by (induction cells arbitrary: m) (auto simp: foldF_append bindF_def split: sum.splits)

lemma foldF_pure:
  assumes "\<And>s x. P s \<Longrightarrow> x \<in> set xs \<Longrightarrow> f s x = Inr (g s x) \<and> P (g s x)"
    and "P s"
  shows "foldF f xs s = Inr (foldl g s xs) \<and> P (foldl g s xs)"
  using assms
proof (induction xs arbitrary: s)
  case Nil
  then show ?case by simp
next
  case (Cons x xs)
  have step: "f s x = Inr (g s x)" "P (g s x)"
    using Cons.prems(1)[of s x] Cons.prems(2) by simp_all
  have "foldF f xs (g s x) = Inr (foldl g (g s x) xs) \<and> P (foldl g (g s x) xs)"
    by (rule Cons.IH) (use Cons.prems(1) step(2) in auto)
  then show ?case
    by (simp add: step(1) bindF_Inr)
qed

section \<open>The collapse map: the loops as folds\<close>

lemma ids_okD: "ids_ok nodes \<Longrightarrow> i < length nodes \<Longrightarrow> ID (nodes ! i) = i"
  by (simp add: ids_ok_def list_all_iff)

lemma grid_okD:
  "grid_ok E nodes eps \<Longrightarrow> k < length nodes \<Longrightarrow> p \<in> set (candidates E nodes eps k) \<Longrightarrow> p < length nodes"
  by (simp add: grid_ok_def list_all_iff)

lemma length_absorb: "length (absorb near k m p) = length m"
  by (simp add: absorb_def)

lemma test_node_step_pure:
  assumes "ids_ok nodes" "k < length nodes" "p < length nodes" "length m = length nodes"
  shows "test_node_step nodes (fl (eps * eps)) (nodes ! k) m p = Inr (absorb (nearby nodes eps) k m p)"
  using assms by (simp add: test_node_step_def absorb_def nearby_def ids_okD Let_def)

lemma collapse_from_pure:
  assumes "ids_ok nodes" "grid_ok E nodes eps" "k < length nodes" "length m = length nodes"
  shows "collapse_from E nodes eps m k = Inr (sweep (nearby nodes eps) (candidates E nodes eps) m k)
       \<and> length (sweep (nearby nodes eps) (candidates E nodes eps) m k) = length nodes"
proof -
  have "foldF (test_node_step nodes (fl (eps * eps)) (nodes ! k)) (candidates E nodes eps k) m
        = Inr (foldl (absorb (nearby nodes eps) k) m (candidates E nodes eps k))
      \<and> length (foldl (absorb (nearby nodes eps) k) m (candidates E nodes eps k)) = length nodes"
    by (rule foldF_pure[where P = "\<lambda>m. length m = length nodes"])
       (use assms in \<open>auto simp: test_node_step_pure length_absorb dest: grid_okD\<close>)
  then show ?thesis
    using assms(1,3)
    by (simp add: collapse_from_def Let_def ids_okD foldF_concat candidates_def sweep_def)
qed

lemma collapseNodeIndeces_pure:
  assumes "ids_ok nodes" "grid_ok E nodes eps"
  shows "collapseNodeIndeces E nodes eps
           = Inr (collapse_pure (nearby nodes eps) (candidates E nodes eps) (length nodes))
       \<and> length (collapse_pure (nearby nodes eps) (candidates E nodes eps) (length nodes)) = length nodes"
  unfolding collapseNodeIndeces_def collapse_pure_def
  by (rule foldF_pure[where P = "\<lambda>m. length m = length nodes"])
     (use assms in \<open>auto simp: collapse_from_pure\<close>)


section \<open>The collapse map: invariants\<close>

subsection \<open>One sweep\<close>

lemma absorb_cases:
  assumes "p < length m" "k < length m"
  shows "absorb near k m p = m
       \<or> (m ! p = p \<and> p \<noteq> k \<and> m ! k \<noteq> p \<and> near k p \<and> absorb near k m p = m[p := k])"
  using assms by (auto simp: absorb_def)

lemma absorb_done:
  assumes "p < length m" "k < length m" "near k p"
  shows "absorb near k m p ! p \<noteq> p \<or> m ! k = p"
  using assms by (auto simp: absorb_def)

lemma sweep_inner:
  assumes "k < length m" "\<forall>p \<in> set cs. p < length m"
  shows "length (foldl (absorb near k) m cs) = length m
       \<and> (\<forall>x < length m. foldl (absorb near k) m cs ! x = m ! x
             \<or> (m ! x = x \<and> x \<noteq> k \<and> foldl (absorb near k) m cs ! x = k \<and> x \<in> set cs
                 \<and> near k x \<and> m ! k \<noteq> x))
       \<and> (\<forall>t \<in> set cs. near k t \<longrightarrow> foldl (absorb near k) m cs ! t \<noteq> t \<or> m ! k = t)"
  using assms
proof (induction cs arbitrary: m)
  case Nil
  then show ?case by simp
next
  case (Cons c cs)
  let ?m1 = "absorb near k m c"
  let ?m' = "foldl (absorb near k) ?m1 cs"
  have c: "c < length m" using Cons.prems by simp
  have len1: "length ?m1 = length m" by (simp add: length_absorb)
  have IH: "length ?m' = length ?m1
       \<and> (\<forall>x < length ?m1. ?m' ! x = ?m1 ! x
             \<or> (?m1 ! x = x \<and> x \<noteq> k \<and> ?m' ! x = k \<and> x \<in> set cs \<and> near k x \<and> ?m1 ! k \<noteq> x))
       \<and> (\<forall>t \<in> set cs. near k t \<longrightarrow> ?m' ! t \<noteq> t \<or> ?m1 ! k = t)"
    by (rule Cons.IH) (use Cons.prems len1 in auto)
  have step: "?m1 = m \<or> (m ! c = c \<and> c \<noteq> k \<and> m ! k \<noteq> c \<and> near k c \<and> ?m1 = m[c := k])"
    by (rule absorb_cases) (use c Cons.prems in auto)
  have k1: "?m1 ! k = m ! k"
    using step c Cons.prems(1) by auto
  have A: "length ?m' = length m" using IH len1 by simp
  have B: "?m' ! x = m ! x
             \<or> (m ! x = x \<and> x \<noteq> k \<and> ?m' ! x = k \<and> x \<in> set (c # cs) \<and> near k x \<and> m ! k \<noteq> x)"
    if "x < length m" for x
  proof -
    have i: "?m' ! x = ?m1 ! x
             \<or> (?m1 ! x = x \<and> x \<noteq> k \<and> ?m' ! x = k \<and> x \<in> set cs \<and> near k x \<and> ?m1 ! k \<noteq> x)"
      using IH that len1 by simp
    show ?thesis
    proof (cases "?m1 = m")
      case True
      then show ?thesis using i by auto
    next
      case False
      then have s: "m ! c = c" "c \<noteq> k" "m ! k \<noteq> c" "near k c" "?m1 = m[c := k]"
        using step by auto
      show ?thesis
      proof (cases "x = c")
        case True
        then have "?m1 ! x = k" using s(5) c by simp
        then have "?m' ! x = k" using i True s(2) by auto
        then show ?thesis using True s by simp
      next
        case False
        then have "?m1 ! x = m ! x" using s(5) by simp
        then show ?thesis using i k1 by auto
      qed
    qed
  qed
  have C: "?m' ! t \<noteq> t \<or> m ! k = t" if "t \<in> set (c # cs)" "near k t" for t
  proof (cases "t \<in> set cs")
    case True
    then show ?thesis using IH that(2) k1 by auto
  next
    case False
    then have tc: "t = c" using that(1) by simp
    have d: "?m1 ! c \<noteq> c \<or> m ! k = c"
      by (rule absorb_done) (use c Cons.prems that tc in auto)
    have i: "?m' ! c = ?m1 ! c
             \<or> (?m1 ! c = c \<and> c \<noteq> k \<and> ?m' ! c = k \<and> c \<in> set cs \<and> near k c \<and> ?m1 ! k \<noteq> c)"
      using IH c len1 by simp
    show ?thesis using d i tc by auto
  qed
  show ?case using A B C by simp
qed


subsection \<open>All sweeps\<close>

lemma collapse_inv:
  assumes ok: "\<forall>k < n. \<forall>p \<in> set (cand k). p < n" and K: "K \<le> n"
  shows "length (foldl (sweep near cand) [0..<n] [0..<K]) = n
    \<and> (\<forall>x < n. foldl (sweep near cand) [0..<n] [0..<K] ! x = x
          \<or> (foldl (sweep near cand) [0..<n] [0..<K] ! x < K
              \<and> x \<in> set (cand (foldl (sweep near cand) [0..<n] [0..<K] ! x))
              \<and> near (foldl (sweep near cand) [0..<n] [0..<K] ! x) x
              \<and> foldl (sweep near cand) [0..<n] [0..<K]
                   ! (foldl (sweep near cand) [0..<n] [0..<K] ! x) \<noteq> x))
    \<and> (\<forall>k < K. \<forall>t \<in> set (cand k). near k t \<longrightarrow>
          foldl (sweep near cand) [0..<n] [0..<K] ! t \<noteq> t
          \<or> foldl (sweep near cand) [0..<n] [0..<K] ! k = t)
    \<and> (\<forall>j < K. \<forall>t \<in> set (cand j). j < t \<longrightarrow> near j t \<longrightarrow>
          foldl (sweep near cand) [0..<n] [0..<K] ! t \<noteq> t
          \<and> foldl (sweep near cand) [0..<n] [0..<K] ! t \<le> j)"
  using K
proof (induction K)
  case 0
  then show ?case by simp
next
  case (Suc K)
  define m where "m = foldl (sweep near cand) [0..<n] [0..<K]"
  define m' where "m' = foldl (absorb near K) m (cand K)"
  have Kn: "K < n" using Suc.prems by simp
  have m'_eq: "foldl (sweep near cand) [0..<n] [0..<Suc K] = m'"
    by (simp add: m'_def m_def sweep_def)
  have O1: "length m = n"
    and O2: "\<And>x. x < n \<Longrightarrow> m ! x = x
          \<or> (m ! x < K \<and> x \<in> set (cand (m ! x)) \<and> near (m ! x) x \<and> m ! (m ! x) \<noteq> x)"
    and O3: "\<And>k t. k < K \<Longrightarrow> t \<in> set (cand k) \<Longrightarrow> near k t \<Longrightarrow> m ! t \<noteq> t \<or> m ! k = t"
    and O4: "\<And>j t. j < K \<Longrightarrow> t \<in> set (cand j) \<Longrightarrow> j < t \<Longrightarrow> near j t \<Longrightarrow> m ! t \<noteq> t \<and> m ! t \<le> j"
    using Suc.IH Kn unfolding m_def by auto
  have candK: "\<forall>p \<in> set (cand K). p < length m"
    using ok Kn O1 by simp
  have S: "length m' = length m
       \<and> (\<forall>x < length m. m' ! x = m ! x
             \<or> (m ! x = x \<and> x \<noteq> K \<and> m' ! x = K \<and> x \<in> set (cand K) \<and> near K x \<and> m ! K \<noteq> x))
       \<and> (\<forall>t \<in> set (cand K). near K t \<longrightarrow> m' ! t \<noteq> t \<or> m ! K = t)"
    unfolding m'_def by (rule sweep_inner) (use Kn O1 candK in auto)
  have S1: "length m' = n" using S O1 by simp
  have S2: "\<And>x. x < n \<Longrightarrow> m' ! x = m ! x
             \<or> (m ! x = x \<and> x \<noteq> K \<and> m' ! x = K \<and> x \<in> set (cand K) \<and> near K x \<and> m ! K \<noteq> x)"
    using S O1 by simp
  have S3: "\<And>t. t \<in> set (cand K) \<Longrightarrow> near K t \<Longrightarrow> m' ! t \<noteq> t \<or> m ! K = t"
    using S by simp
  have stable: "m' ! x = m ! x" if "x < n" "m ! x \<noteq> x" for x
    using S2[OF that(1)] that(2) by auto
  have mK: "m' ! K = m ! K"
    using S2[OF Kn] by auto
  have P2: "m' ! x = x \<or> (m' ! x < Suc K \<and> x \<in> set (cand (m' ! x)) \<and> near (m' ! x) x \<and> m' ! (m' ! x) \<noteq> x)"
    if x: "x < n" for x
  proof (cases "m' ! x = m ! x")
    case same: True
    show ?thesis
    proof (cases "m ! x = x")
      case True
      then show ?thesis using same by simp
    next
      case False
      then have o: "m ! x < K" "x \<in> set (cand (m ! x))" "near (m ! x) x" "m ! (m ! x) \<noteq> x"
        using O2[OF x] by auto
      have y: "m ! x < n" using o(1) Kn by simp
      have "m' ! (m ! x) \<noteq> x"
      proof
        assume a: "m' ! (m ! x) = x"
        then have "m' ! (m ! x) \<noteq> m ! (m ! x)" using o(4) by simp
        then have "m ! (m ! x) = m ! x \<and> m' ! (m ! x) = K \<and> m ! K \<noteq> m ! x"
          using S2[OF y] by auto
        then show False using a by auto
      qed
      then show ?thesis using same o by simp
    qed
  next
    case False
    then have "m ! x = x \<and> x \<noteq> K \<and> m' ! x = K \<and> x \<in> set (cand K) \<and> near K x \<and> m ! K \<noteq> x"
      using S2[OF x] by auto
    then show ?thesis using mK by simp
  qed
  have P3: "m' ! t \<noteq> t \<or> m' ! k = t" if "k < Suc K" "t \<in> set (cand k)" "near k t" for k t
  proof (cases "k = K")
    case True
    then show ?thesis using S3 that mK by auto
  next
    case False
    then have kK: "k < K" using that(1) by simp
    have kn: "k < n" using kK Kn by simp
    have tn: "t < n" using ok kn that(2) by auto
    have o: "m ! t \<noteq> t \<or> m ! k = t" using O3[OF kK that(2,3)] .
    show ?thesis
    proof (cases "m ! t \<noteq> t")
      case True
      then show ?thesis using stable[OF tn] by simp
    next
      case False
      then have mk: "m ! k = t" using o by simp
      show ?thesis
      proof (cases "t = k")
        case True
        then show ?thesis by auto
      next
        case False
        then have "m' ! k = m ! k" using stable[OF kn] mk by simp
        then show ?thesis using mk by simp
      qed
    qed
  qed
  have P4: "m' ! t \<noteq> t \<and> m' ! t \<le> j" if "j < Suc K" "t \<in> set (cand j)" "j < t" "near j t" for j t
  proof (cases "j = K")
    case True
    have tn: "t < n" using ok Kn that(2) True by auto
    have "m ! K = K \<or> m ! K < K" using O2[OF Kn] by auto
    then have "m ! K \<noteq> t" using that(3) True by auto
    then have ne: "m' ! t \<noteq> t" using S3 that True by auto
    have "m' ! t = m ! t \<or> m' ! t = K" using S2[OF tn] by auto
    then have "m' ! t \<le> K"
    proof
      assume a: "m' ! t = m ! t"
      then have "m ! t \<noteq> t" using ne by simp
      then have "m ! t < K" using O2[OF tn] by auto
      then show ?thesis using a by simp
    qed simp
    then show ?thesis using ne True by simp
  next
    case False
    then have jK: "j < K" using that(1) by simp
    have jn: "j < n" using jK Kn by simp
    have tn: "t < n" using ok jn that(2) by auto
    have o: "m ! t \<noteq> t \<and> m ! t \<le> j" using O4[OF jK that(2,3,4)] .
    then show ?thesis using stable[OF tn] by simp
  qed
  show ?case
    unfolding m'_eq using S1 P2 P3 P4 by blast
qed


lemma collapse_pure_inv:
  fixes near :: "nat \<Rightarrow> nat \<Rightarrow> bool" and cand :: "nat \<Rightarrow> nat list" and n :: nat
  assumes ok: "\<forall>k < n. \<forall>p \<in> set (cand k). p < n"
  defines "m \<equiv> collapse_pure near cand n"
  shows "length m = n"
    and "\<And>x. x < n \<Longrightarrow> m ! x \<noteq> x \<Longrightarrow>
           m ! x < n \<and> x \<in> set (cand (m ! x)) \<and> near (m ! x) x \<and> m ! (m ! x) \<noteq> x"
    and "\<And>k t. k < n \<Longrightarrow> t \<in> set (cand k) \<Longrightarrow> near k t \<Longrightarrow> m ! t \<noteq> t \<or> m ! k = t"
    and "\<And>j t. j < n \<Longrightarrow> t \<in> set (cand j) \<Longrightarrow> j < t \<Longrightarrow> near j t \<Longrightarrow> m ! t \<noteq> t \<and> m ! t \<le> j"
proof -
  have m: "m = foldl (sweep near cand) [0..<n] [0..<n]"
    by (simp add: m_def collapse_pure_def)
  note inv = collapse_inv[OF ok le_refl, of near, folded m]
  show "length m = n" using inv by (elim conjE)
  show "m ! x < n \<and> x \<in> set (cand (m ! x)) \<and> near (m ! x) x \<and> m ! (m ! x) \<noteq> x"
    if "x < n" "m ! x \<noteq> x" for x
  proof -
    have "\<forall>x < n. m ! x = x
          \<or> (m ! x < n \<and> x \<in> set (cand (m ! x)) \<and> near (m ! x) x \<and> m ! (m ! x) \<noteq> x)"
      using inv by (elim conjE)
    then show ?thesis using that by blast
  qed
  show "m ! t \<noteq> t \<or> m ! k = t" if "k < n" "t \<in> set (cand k)" "near k t" for k t
  proof -
    have "\<forall>k < n. \<forall>t \<in> set (cand k). near k t \<longrightarrow> m ! t \<noteq> t \<or> m ! k = t"
      using inv by (elim conjE)
    then show ?thesis using that by blast
  qed
  show "m ! t \<noteq> t \<and> m ! t \<le> j" if "j < n" "t \<in> set (cand j)" "j < t" "near j t" for j t
  proof -
    have "\<forall>j < n. \<forall>t \<in> set (cand j). j < t \<longrightarrow> near j t \<longrightarrow> m ! t \<noteq> t \<and> m ! t \<le> j"
      using inv by (elim conjE)
    then show ?thesis using that by blast
  qed
qed

lemmas collapse_pure_length = collapse_pure_inv(1)
  and collapse_pure_target = collapse_pure_inv(2)
  and collapse_pure_absorbed = collapse_pure_inv(3)
  and collapse_pure_earlier = collapse_pure_inv(4)

text \<open>Two nodes that both keep their own entry, one of them a candidate of the other, fail
  the distance test.\<close>

lemma collapse_pure_survivors:
  assumes ok: "\<forall>k < n. \<forall>p \<in> set (cand k). p < n"
    and "a < n" "a \<noteq> b" "b \<in> set (cand a)"
    and "collapse_pure near cand n ! a = a" "collapse_pure near cand n ! b = b"
  shows "\<not> near a b"
  using collapse_pure_absorbed[where near = near and cand = cand, OF ok assms(2,4)] assms(3,5,6) by auto

text \<open>A node that survives the run with the larger relation survives the run with the
  smaller one, provided the smaller relation is symmetric.\<close>

lemma collapse_pure_mono:
  assumes ok1: "\<forall>k < n. \<forall>p \<in> set (cand1 k). p < n"
    and ok2: "\<forall>k < n. \<forall>p \<in> set (cand2 k). p < n"
    and sub: "\<And>k t. k < n \<Longrightarrow> t \<in> set (cand1 k) \<Longrightarrow> near1 k t \<Longrightarrow> t \<in> set (cand2 k) \<and> near2 k t"
    and sym: "\<And>k t. k < n \<Longrightarrow> t \<in> set (cand1 k) \<Longrightarrow> near1 k t \<Longrightarrow> k \<in> set (cand1 t) \<and> near1 t k"
    and t: "t < n" and s2: "collapse_pure near2 cand2 n ! t = t"
  shows "collapse_pure near1 cand1 n ! t = t"
proof (rule ccontr)
  define m1 where "m1 = collapse_pure near1 cand1 n"
  define m2 where "m2 = collapse_pure near2 cand2 n"
  assume "collapse_pure near1 cand1 n ! t \<noteq> t"
  then have ne: "m1 ! t \<noteq> t" by (simp add: m1_def)
  define k where "k = m1 ! t"
  have k: "k < n" "t \<in> set (cand1 k)" "near1 k t" "m1 ! k \<noteq> t"
    using collapse_pure_target[where near = near1 and cand = cand1, OF ok1 t] ne unfolding m1_def k_def by auto
  have kt: "k \<noteq> t" using ne k_def by simp
  have e2: "t \<in> set (cand2 k)" "near2 k t" using sub[OF k(1,2,3)] by auto
  have m2k: "m2 ! k = t"
    using collapse_pure_absorbed[where near = near2 and cand = cand2, OF ok2 k(1) e2] s2 unfolding m2_def by auto
  have tk: "t < k"
  proof (rule ccontr)
    assume "\<not> t < k"
    then have "k < t" using kt by simp
    then have "m2 ! t \<noteq> t"
      using collapse_pure_earlier[where near = near2 and cand = cand2, OF ok2 k(1) e2(1) _ e2(2)] unfolding m2_def by auto
    then show False using s2 m2_def by simp
  qed
  have e1: "k \<in> set (cand1 t)" "near1 t k" using sym[OF k(1,2,3)] by auto
  have j: "m1 ! k \<noteq> k" "m1 ! k \<le> t"
    using collapse_pure_earlier[where near = near1 and cand = cand1, OF ok1 t e1(1) tk e1(2)] unfolding m1_def by auto
  define j where "j = m1 ! k"
  have jt: "j < t" using j k(4) unfolding j_def by simp
  have jn: "j < n" using jt t by simp
  have ej: "k \<in> set (cand1 j)" "near1 j k"
    using collapse_pure_target[where near = near1 and cand = cand1, OF ok1 k(1)] j(1) unfolding m1_def j_def by auto
  have ej2: "k \<in> set (cand2 j)" "near2 j k" using sub[OF jn ej] by auto
  have jk: "j < k" using jt tk by simp
  have "m2 ! k \<le> j"
    using collapse_pure_earlier[where near = near2 and cand = cand2, OF ok2 jn ej2(1) jk ej2(2)] unfolding m2_def by auto
  then show False using m2k jt by simp
qed

lemma length_filter_mono:
  assumes "\<And>x. x \<in> set xs \<Longrightarrow> P x \<Longrightarrow> Q x"
  shows "length (filter P xs) \<le> length (filter Q xs)"
  using assms by (induction xs) auto

lemma bindF_Inr_right: "bindF m Inr = m"
  by (cases m) (simp_all add: bindF_def)


section \<open>The new node vector\<close>




lemma grid_ok_cand:
  "grid_ok E nodes eps \<Longrightarrow> \<forall>k < length nodes. \<forall>p \<in> set (candidates E nodes eps k). p < length nodes"
  by (simp add: grid_ok_def list_all_iff)

section \<open>Properties of the collapse map\<close>

lemma nearby_sym: "nearby nodes eps k p = nearby nodes eps p k"
  by (simp add: nearby_def sqrDist_sym)

lemma nearby_mono:
  assumes "0 \<le> eps1" "eps1 \<le> eps2" "nearby nodes eps1 k p"
  shows "nearby nodes eps2 k p"
proof -
  have "0 \<le> eps1 * eps1" "eps1 * eps1 \<le> eps2 * eps2" using assms(1,2) by (simp_all add: mult_mono)
  then show ?thesis using assms(3) unfolding nearby_def by (rule dless_fl_mono)
qed

lemma survivors_apart_pure:
  assumes "ids_ok nodes" "grid_ok E nodes eps"
    and "a < length nodes" "a \<noteq> b" "b \<in> set (candidates E nodes eps a)"
    and "collapse_pure (nearby nodes eps) (candidates E nodes eps) (length nodes) ! a = a"
    and "collapse_pure (nearby nodes eps) (candidates E nodes eps) (length nodes) ! b = b"
  shows "\<not> nearby nodes eps a b"
  by (rule collapse_pure_survivors[where cand = "candidates E nodes eps" and n = "length nodes"])
     (use assms grid_ok_cand in auto)

lemma grid_symmetricD:
  "grid_symmetric E nodes eps \<Longrightarrow> k < length nodes \<Longrightarrow> p \<in> set (candidates E nodes eps k)
     \<Longrightarrow> k \<in> set (candidates E nodes eps p)"
  by (simp add: grid_symmetric_def list_all_iff)

lemma grid_monotoneD:
  "grid_monotone E nodes eps1 eps2 \<Longrightarrow> k < length nodes \<Longrightarrow> p \<in> set (candidates E nodes eps1 k)
     \<Longrightarrow> p \<in> set (candidates E nodes eps2 k)"
  by (simp add: grid_monotone_def list_all_iff)

lemma grid_coversD:
  "grid_covers E nodes eps \<Longrightarrow> k < length nodes \<Longrightarrow> p < length nodes
     \<Longrightarrow> inCube (coords (nodes ! k)) (rnd (eps / 2)) (coords (nodes ! p))
     \<Longrightarrow> p \<in> set (candidates E nodes eps k)"
  by (simp add: grid_covers_def list_all_iff)

lemma getNCollapsableNodes_pure:
  assumes "ids_ok nodes" "grid_ok E nodes eps"
  shows "getNCollapsableNodes E nodes eps
           = Inr (length (filter (\<lambda>i. i \<noteq> collapse_pure (nearby nodes eps) (candidates E nodes eps) (length nodes) ! i)
                           [0..<length nodes]) mod 4294967296)"
  using collapseNodeIndeces_pure[OF assms] by (simp add: getNCollapsableNodes_def bindF_Inr)


lemma candidates_oneCellGrid:
  "gridQuery E = oneCellGrid \<Longrightarrow> candidates E nodes eps k = [0..<length nodes]"
  by (simp add: candidates_def oneCellGrid_def)

lemma candidates_cellGrid:
  "gridQuery E = cellGrid w \<Longrightarrow>
     candidates E nodes eps k
       = filter (\<lambda>p. cellMeetsCube w (coords (nodes ! k)) (rnd (eps / 2)) (coords (nodes ! p)))
           [0..<length nodes]"
  by (simp add: candidates_def cellGrid_def)

lemma oneCellGrid_properties:
  assumes "gridQuery E = oneCellGrid"
  shows "grid_ok E nodes eps" and "grid_covers E nodes eps"
    and "grid_symmetric E nodes eps" and "grid_monotone E nodes eps1 eps2"
  using assms
  by (simp_all add: grid_ok_def grid_covers_def grid_symmetric_def grid_monotone_def
      candidates_oneCellGrid list_all_iff)

text \<open>A grid of cells returns nodes of the mesh, among them the nodes inside the cube, and
  for a larger cube what it returns for a smaller one. Its answers need not be symmetric.\<close>

lemma cellIndex_mono: "0 < w \<Longrightarrow> x \<le> y \<Longrightarrow> cellIndex w x \<le> cellIndex w y"
  unfolding cellIndex_def by (intro floor_mono divide_right_mono) simp_all

lemma inCube_cellMeetsCube:
  assumes "0 < w" "inCube c h p"
  shows "cellMeetsCube w c h p"
proof -
  obtain cx cy cz x y z where c: "c = (cx, cy, cz)" and p: "p = (x, y, z)"
    by (cases c, cases p) auto
  have "cx - h \<le> x" "x \<le> cx + h" "cy - h \<le> y" "y \<le> cy + h" "cz - h \<le> z" "z \<le> cz + h"
    using assms(2) by (auto simp: c p inCube_def abs_le_iff)
  then show ?thesis
    using cellIndex_mono[OF assms(1)] by (simp add: c p cellMeetsCube_def)
qed

lemma cellMeetsCube_mono:
  assumes "0 < w" "h1 \<le> h2" "cellMeetsCube w c h1 p"
  shows "cellMeetsCube w c h2 p"
proof -
  obtain cx cy cz x y z where c: "c = (cx, cy, cz)" and p: "p = (x, y, z)"
    by (cases c, cases p) auto
  have lo: "cellIndex w (t - h2) \<le> cellIndex w (t - h1)" for t
    using cellIndex_mono[OF assms(1), of "t - h2" "t - h1"] assms(2) by simp
  have hi: "cellIndex w (t + h1) \<le> cellIndex w (t + h2)" for t
    using cellIndex_mono[OF assms(1), of "t + h1" "t + h2"] assms(2) by simp
  show ?thesis
    using assms(3) lo[of cx] lo[of cy] lo[of cz] hi[of cx] hi[of cy] hi[of cz]
    by (simp add: c p cellMeetsCube_def)
qed

lemma cellGrid_properties:
  assumes "gridQuery E = cellGrid w" and "0 < w"
  shows "grid_ok E nodes eps" and "grid_covers E nodes eps"
    and "0 \<le> eps1 \<Longrightarrow> eps1 \<le> eps2 \<Longrightarrow> grid_monotone E nodes eps1 eps2"
proof -
  show "grid_ok E nodes eps"
    using assms(1) by (simp add: grid_ok_def candidates_cellGrid list_all_iff)
  show "grid_covers E nodes eps"
    using assms(1) inCube_cellMeetsCube[OF assms(2)]
    by (simp add: grid_covers_def candidates_cellGrid list_all_iff)
  show "grid_monotone E nodes eps1 eps2" if "0 \<le> eps1" "eps1 \<le> eps2"
  proof -
    have "rnd (eps1 / 2) \<le> rnd (eps2 / 2)" using that by (intro rnd_mono_nonneg) simp_all
    then show ?thesis
      using assms(1) cellMeetsCube_mono[OF assms(2)]
      by (auto simp: grid_monotone_def candidates_cellGrid list_all_iff)
  qed
qed

lemmas eval_collapse = collapseNodeIndeces_def collapse_from_def test_node_step_def refEnv_def
  oneCellGrid_def cellGrid_def cellMeetsCube_def cellIndex_def inCube_def nodeAtX_def nodeAtXYZ_def
  eval_double bindF_def upt_conv_Cons Let_def ids_ok_def grid_ok_def candidates_def
  getNCollapsableNodes_def

text \<open>C2. The identifier map that \<^verbatim>\<open>collapseNodeIndeces\<close> returns for the three nodes at
  \<open>x = 0, 4, 2\<close> and the tolerance 4 is \<open>[0, 2, 0]\<close>, whatever grid answers the queries
  (it returns nodes of the mesh, among them those inside the cube). The round of node 0
  maps node 2 onto node 0. The round of node 2 is not skipped, since the test at its head
  compares \<^verbatim>\<open>node->getID()\<close> with \<open>k\<close> and not \<^verbatim>\<open>id_map[k]\<close> with \<open>k\<close>; it maps node 1
  onto node 2. So the map applied twice sends node 1 to 0 and applied once to 2, and the
  entry of the target 2 is not 2.\<close>

theorem collapse_chain_any_grid:
  assumes g: "grid_ok E chain_nodes 4" and c: "grid_covers E chain_nodes 4"
  shows "collapseNodeIndeces E chain_nodes 4 = Inr [0, 2, 0]"
proof -
  define m where "m = collapse_pure (nearby chain_nodes 4) (candidates E chain_nodes 4) 3"
  have n: "length chain_nodes = 3" by (simp add: chain_nodes_def)
  have ids: "ids_ok chain_nodes"
    by (simp add: ids_ok_def chain_nodes_def nodeAtX_def upt_conv_Cons)
  have ok: "\<forall>k<3. \<forall>p\<in>set (candidates E chain_nodes 4 k). p < 3"
    using grid_ok_cand[OF g] n by simp
  have run: "collapseNodeIndeces E chain_nodes 4 = Inr m" and len: "length m = 3"
    using collapseNodeIndeces_pure[OF ids g] n by (simp_all add: m_def)
  have near02: "nearby chain_nodes 4 0 2" and near21: "nearby chain_nodes 4 2 1"
    and far: "\<not> nearby chain_nodes 4 1 0" "\<not> nearby chain_nodes 4 0 1"
    by (simp_all add: nearby_def chain_nodes_def nodeAtX_def eval_double)
  have c02: "2 \<in> set (candidates E chain_nodes 4 0)"
    by (rule grid_coversD[OF c]) (simp_all add: chain_nodes_def nodeAtX_def inCube_def eval_double)
  have c21: "1 \<in> set (candidates E chain_nodes 4 2)"
    by (rule grid_coversD[OF c]) (simp_all add: chain_nodes_def nodeAtX_def inCube_def eval_double)
  have m2: "m ! 2 = 0"
    using collapse_pure_earlier[where near = "nearby chain_nodes 4" and cand = "candidates E chain_nodes 4",
        OF ok _ c02 _ near02]
    by (simp add: m_def)
  have m0: "m ! 0 = 0"
  proof (rule ccontr)
    assume a: "m ! 0 \<noteq> 0"
    have t: "m ! 0 < 3 \<and> 0 \<in> set (candidates E chain_nodes 4 (m ! 0))
           \<and> nearby chain_nodes 4 (m ! 0) 0 \<and> m ! (m ! 0) \<noteq> 0"
      using collapse_pure_target[where near = "nearby chain_nodes 4" and cand = "candidates E chain_nodes 4"
          and n = 3 and x = 0, OF ok] a
      by (simp add: m_def)
    then have "m ! 0 \<noteq> 1" using far(1) by metis
    then have "m ! 0 = 2" using t a by linarith
    then show False using t m2 by simp
  qed
  have m1_ne: "m ! 1 \<noteq> 1"
    using collapse_pure_absorbed[where near = "nearby chain_nodes 4" and cand = "candidates E chain_nodes 4"
        and n = 3, OF ok _ c21 near21] m2
    by (simp add: m_def)
  have m1: "m ! 1 = 2"
  proof -
    have t: "m ! 1 < 3 \<and> nearby chain_nodes 4 (m ! 1) 1"
      using collapse_pure_target[where near = "nearby chain_nodes 4" and cand = "candidates E chain_nodes 4"
          and n = 3 and x = 1, OF ok] m1_ne
      by (simp add: m_def)
    then have "m ! 1 \<noteq> 0" using far(2) by metis
    then show ?thesis using t m1_ne by linarith
  qed
  have "m = [0, 2, 0]"
    using len m0 m1 m2
    by (intro nth_equalityI) (auto simp: less_Suc_eq numeral_eq_Suc)
  then show ?thesis using run by simp
qed

theorem collapse_chain_witness:
  "grid_ok (refEnv oneCellGrid) chain_nodes 4
   \<and> grid_covers (refEnv oneCellGrid) chain_nodes 4
   \<and> collapseNodeIndeces (refEnv oneCellGrid) chain_nodes 4 = Inr [0, 2, 0]
   \<and> [0, 2, 0::nat] ! ([0, 2, 0] ! 1) \<noteq> [0, 2, 0] ! 1"
proof -
  have g: "grid_ok (refEnv oneCellGrid) chain_nodes 4"
    by (simp add: chain_nodes_def eval_collapse)
  have c: "grid_covers (refEnv oneCellGrid) chain_nodes 4"
    by (simp add: chain_nodes_def grid_covers_def eval_collapse)
  show ?thesis using collapse_chain_any_grid[OF g c] g c by simp
qed

text \<open>On a mesh that holds these nodes and one line element between the first two,
  \<^verbatim>\<open>collapseNodes\<close> reads the new node vector outside its bounds: node 1 receives the
  identifier that node 2 still carries, 2, and the new vector has one entry.\<close>

lemma collapseNodes_chain_fault:
  "collapseNodes (refEnv oneCellGrid) ''collapsed''
     \<lparr>mesh_name = ''mesh'', mesh_nodes = chain_nodes, mesh_elements = [mkElement LINE [0, 1] 0]\<rparr> 4
   = Inl OutOfBounds"
  by (simp add: chain_nodes_def eval_collapse collapseNodes_def constructNewNodesArray_def
      newNodes_step_def copyElementVector_def copyElement_def nodeIDs_def getNNodes_def allAt_def
      mkElement_def)

text \<open>C6, as amended. On a mesh whose node identifiers are the positions,
  \<^verbatim>\<open>collapseNodeIndeces\<close> returns a map, and two distinct nodes that both keep their own entry
  fail the distance test of the search whenever the grid returns one of them for the cube
  of half edge length \<open>eps / 2\<close> around the other: their squared distance, as
  \<^verbatim>\<open>sqrDist\<close> computes it in double arithmetic, is not below the double \<^verbatim>\<open>eps * eps\<close>.\<close>

theorem survivors_apart:
  assumes "ids_ok nodes" and "grid_ok E nodes eps"
  shows "\<exists>id_map. collapseNodeIndeces E nodes eps = Inr id_map \<and> length id_map = length nodes
     \<and> (\<forall>a b. a < length nodes \<and> b < length nodes \<and> a \<noteq> b
            \<and> id_map ! a = a \<and> id_map ! b = b
            \<and> (b \<in> set (candidates E nodes eps a) \<or> a \<in> set (candidates E nodes eps b))
          \<longrightarrow> \<not> dless (sqrDist (coords (nodes ! a)) (coords (nodes ! b))) (fl (eps * eps)))"
proof -
  define m where "m = collapse_pure (nearby nodes eps) (candidates E nodes eps) (length nodes)"
  have run: "collapseNodeIndeces E nodes eps = Inr m" "length m = length nodes"
    using collapseNodeIndeces_pure[OF assms] by (simp_all add: m_def)
  have "\<not> nearby nodes eps a b"
    if "a < length nodes" "b < length nodes" "a \<noteq> b" "m ! a = a" "m ! b = b"
      "b \<in> set (candidates E nodes eps a) \<or> a \<in> set (candidates E nodes eps b)" for a b
    using that(6)
  proof
    assume "b \<in> set (candidates E nodes eps a)"
    then show ?thesis
      using survivors_apart_pure[OF assms that(1,3)] that(4,5) by (simp add: m_def)
  next
    assume "a \<in> set (candidates E nodes eps b)"
    then have "\<not> nearby nodes eps b a"
      using survivors_apart_pure[OF assms that(2), of a] that(3,4,5) by (simp add: m_def)
    then show ?thesis by (simp add: nearby_sym)
  qed
  then show ?thesis using run unfolding nearby_def by blast
qed

theorem survivors_apart_witness:
  "ids_ok apart_nodes
   \<and> grid_ok (refEnv (cellGrid 2)) apart_nodes 4
   \<and> collapseNodeIndeces (refEnv (cellGrid 2)) apart_nodes 4 = Inr [0, 1, 2]
   \<and> 2 \<in> set (candidates (refEnv (cellGrid 2)) apart_nodes 4 0)
   \<and> sqrDist (coords (apart_nodes ! 0)) (coords (apart_nodes ! 2)) = Finite 22
   \<and> fl (4 * 4) = Finite 16
   \<and> \<not> dless (sqrDist (coords (apart_nodes ! 0)) (coords (apart_nodes ! 2))) (fl (4 * 4))"
proof -
  let ?E = "refEnv (cellGrid 2)"
  have i: "ids_ok apart_nodes" by (simp add: apart_nodes_def eval_collapse)
  have g: "grid_ok ?E apart_nodes 4" by (simp add: apart_nodes_def eval_collapse)
  have r: "collapseNodeIndeces ?E apart_nodes 4 = Inr [0, 1, 2]"
    by (simp add: apart_nodes_def eval_collapse)
  have c: "2 \<in> set (candidates ?E apart_nodes 4 0)" by (simp add: apart_nodes_def eval_collapse)
  have d: "sqrDist (coords (apart_nodes ! 0)) (coords (apart_nodes ! 2)) = Finite 22"
    by (simp add: apart_nodes_def nodeAtXYZ_def eval_double)
  have e: "fl (4 * 4) = Finite 16" by (simp add: eval_double)
  obtain m where m: "collapseNodeIndeces ?E apart_nodes 4 = Inr m"
    and far: "\<forall>a b. a < length apart_nodes \<and> b < length apart_nodes \<and> a \<noteq> b \<and> m ! a = a \<and> m ! b = b
            \<and> (b \<in> set (candidates ?E apart_nodes 4 a) \<or> a \<in> set (candidates ?E apart_nodes 4 b))
          \<longrightarrow> \<not> dless (sqrDist (coords (apart_nodes ! a)) (coords (apart_nodes ! b))) (fl (4 * 4))"
    using survivors_apart[OF i g] by blast
  have "m = [0, 1, 2]" using m r by simp
  then have "\<not> dless (sqrDist (coords (apart_nodes ! 0)) (coords (apart_nodes ! 2))) (fl (4 * 4))"
    using far[rule_format, of 0 2] c by (simp add: apart_nodes_def)
  then show ?thesis using i g r c d e by simp
qed

text \<open>Against C6 as stated. With a grid of cells of edge length 2 and the tolerance 4, the
  nodes at \<open>(1,0,0)\<close> and \<open>(4,0,0)\<close> are 3 apart, the cube of half edge length 2 around
  either meets no cell that holds the other, and both survive (on the mesh of the witness
  above). With a grid of one cell, the nodes at \<open>(0,0,0)\<close> and \<open>(1, 2^-26, 2^-26)\<close> and the
  tolerance \<open>1 + 2^-52\<close> are compared, but the square of the tolerance is rounded down to
  the squared distance \<open>1 + 2^-51\<close>: the test fails and both survive at a distance below
  the tolerance.\<close>

theorem survivors_closer_than_eps:
  "ids_ok apart_nodes
   \<and> grid_ok (refEnv (cellGrid 2)) apart_nodes 4
   \<and> grid_covers (refEnv (cellGrid 2)) apart_nodes 4
   \<and> collapseNodeIndeces (refEnv (cellGrid 2)) apart_nodes 4 = Inr [0, 1, 2]
   \<and> distance (coords (apart_nodes ! 0)) (coords (apart_nodes ! 1)) < 4
   \<and> ids_ok rounding_nodes
   \<and> collapseNodeIndeces (refEnv oneCellGrid) rounding_nodes rounding_eps = Inr [0, 1]
   \<and> distance (coords (rounding_nodes ! 0)) (coords (rounding_nodes ! 1)) < rounding_eps"
proof -
  have i: "ids_ok apart_nodes" by (simp add: apart_nodes_def eval_collapse)
  have g: "grid_ok (refEnv (cellGrid 2)) apart_nodes 4" by (simp add: apart_nodes_def eval_collapse)
  have c: "grid_covers (refEnv (cellGrid 2)) apart_nodes 4"
    by (rule cellGrid_properties(2)[where w = 2]) (simp_all add: refEnv_def)
  have r: "collapseNodeIndeces (refEnv (cellGrid 2)) apart_nodes 4 = Inr [0, 1, 2]"
    by (simp add: apart_nodes_def eval_collapse)
  have "sqrt (3 * 3) < (4::real)" by (rule real_less_lsqrt) simp_all
  then have d: "distance (coords (apart_nodes ! 0)) (coords (apart_nodes ! 1)) < 4"
    by (simp add: apart_nodes_def nodeAtXYZ_def distance_def)
  have i': "ids_ok rounding_nodes" by (simp add: rounding_nodes_def eval_collapse)
  have s: "sqrDist (coords (rounding_nodes ! 0)) (coords (rounding_nodes ! 1)) = Finite (1 + 1 / 2 ^ 51)"
    using sqrDist_rounding_nodes by (simp add: rounding_nodes_def nodeAtXYZ_def)
  then have s': "sqrDist (coords (rounding_nodes ! 1)) (coords (rounding_nodes ! 0)) = Finite (1 + 1 / 2 ^ 51)"
    by (simp only: sqrDist_sym)
  have n: "length rounding_nodes = 2" "ID (rounding_nodes ! 0) = 0" "ID (rounding_nodes ! 1) = 1"
    by (simp_all add: rounding_nodes_def nodeAtXYZ_def)
  have u: "[0..<2] = [0, Suc 0]" by (simp add: upt_conv_Cons)
  have r': "collapseNodeIndeces (refEnv oneCellGrid) rounding_nodes rounding_eps = Inr [0, 1]"
    using n s s' fl_rounding_eps
    by (simp add: collapseNodeIndeces_def collapse_from_def test_node_step_def refEnv_def
        oneCellGrid_def bindF_def Let_def u)
  have "sqrt (1 + 1 / 2 ^ 26 * (1 / 2 ^ 26) + 1 / 2 ^ 26 * (1 / 2 ^ 26)) < 1 + 1 / (2::real) ^ 52"
    by (rule real_less_lsqrt) (simp_all add: power2_eq_square)
  then have d': "distance (coords (rounding_nodes ! 0)) (coords (rounding_nodes ! 1)) < rounding_eps"
    by (simp add: rounding_nodes_def nodeAtXYZ_def distance_def rounding_eps_def)
  show ?thesis using i g c r d i' r' d' by simp
qed

text \<open>With a grid of one cell every pair of distinct survivors fails the distance test.\<close>

lemma survivors_apart_one_cell:
  assumes "ids_ok nodes" and "gridQuery E = oneCellGrid"
    and "collapseNodeIndeces E nodes eps = Inr id_map"
    and "a < length nodes" "b < length nodes" "a \<noteq> b" "id_map ! a = a" "id_map ! b = b"
  shows "\<not> dless (sqrDist (coords (nodes ! a)) (coords (nodes ! b))) (fl (eps * eps))"
proof -
  have g: "grid_ok E nodes eps" using assms(2) by (rule oneCellGrid_properties)
  have m: "id_map = collapse_pure (nearby nodes eps) (candidates E nodes eps) (length nodes)"
    using collapseNodeIndeces_pure[OF assms(1) g] assms(3) by simp
  have c: "b \<in> set (candidates E nodes eps a)"
    using assms(2,5) by (simp add: candidates_oneCellGrid)
  show ?thesis
    using survivors_apart_pure[OF assms(1) g assms(4,6) c] assms(7,8) unfolding m nearby_def by simp
qed

text \<open>Where nothing is rounded and nothing overflows, a failed distance test says that the
  Euclidean distance of the two nodes is at least the tolerance.\<close>

lemma failed_test_exact:
  assumes "sqrDist p q = Finite (distance p q * distance p q)" and "fl (eps * eps) = Finite (eps * eps)"
    and "\<not> dless (sqrDist p q) (fl (eps * eps))"
  shows "eps \<le> distance p q"
proof -
  have d: "0 \<le> distance p q" by (cases p, cases q) (simp add: distance_def)
  have "eps * eps \<le> distance p q * distance p q" using assms by simp
  then have "\<bar>eps\<bar> \<le> \<bar>distance p q\<bar>" by (simp add: abs_le_square_iff power2_eq_square)
  then show ?thesis using d by simp
qed

text \<open>C9, as amended. On a mesh whose node identifiers are the positions, for tolerances
  \<open>0 \<le> eps1 \<le> eps2\<close> and a grid whose answers are symmetric for \<open>eps1\<close> and do not
  shrink from \<open>eps1\<close> to \<open>eps2\<close> (a grid of one cell, for instance), the collapse map for
  \<open>eps1\<close> sends at most as many nodes away as the collapse map for \<open>eps2\<close>.
  \<^verbatim>\<open>getNCollapsableNodes\<close> returns these two numbers modulo \<open>2 ^ 32\<close>, that is, the numbers
  themselves on a mesh of fewer than \<open>2 ^ 32\<close> nodes.\<close>

theorem collapsable_count_monotone:
  assumes ids: "ids_ok nodes"
    and g1: "grid_ok E nodes eps1" and g2: "grid_ok E nodes eps2"
    and sym: "grid_symmetric E nodes eps1" and mono: "grid_monotone E nodes eps1 eps2"
    and eps: "0 \<le> eps1" "eps1 \<le> eps2"
  shows "\<exists>m1 m2 c1 c2.
           collapseNodeIndeces E nodes eps1 = Inr m1 \<and> collapseNodeIndeces E nodes eps2 = Inr m2
         \<and> length (filter (\<lambda>i. i \<noteq> m1 ! i) [0..<length nodes])
             \<le> length (filter (\<lambda>i. i \<noteq> m2 ! i) [0..<length nodes])
         \<and> getNCollapsableNodes E nodes eps1 = Inr c1 \<and> getNCollapsableNodes E nodes eps2 = Inr c2
         \<and> c1 = length (filter (\<lambda>i. i \<noteq> m1 ! i) [0..<length nodes]) mod 4294967296
         \<and> c2 = length (filter (\<lambda>i. i \<noteq> m2 ! i) [0..<length nodes]) mod 4294967296
         \<and> (length nodes < 4294967296 \<longrightarrow> c1 \<le> c2)"
proof -
  define m1 where "m1 = collapse_pure (nearby nodes eps1) (candidates E nodes eps1) (length nodes)"
  define m2 where "m2 = collapse_pure (nearby nodes eps2) (candidates E nodes eps2) (length nodes)"
  define n1 where "n1 = length (filter (\<lambda>i. i \<noteq> m1 ! i) [0..<length nodes])"
  define n2 where "n2 = length (filter (\<lambda>i. i \<noteq> m2 ! i) [0..<length nodes])"
  have keep: "m1 ! t = t" if "t < length nodes" "m2 ! t = t" for t
    unfolding m1_def
  proof (rule collapse_pure_mono[where ?near2.0 = "nearby nodes eps2"
          and ?cand2.0 = "candidates E nodes eps2"])
    show "\<forall>k<length nodes. \<forall>p\<in>set (candidates E nodes eps1 k). p < length nodes"
      using g1 by (rule grid_ok_cand)
    show "\<forall>k<length nodes. \<forall>p\<in>set (candidates E nodes eps2 k). p < length nodes"
      using g2 by (rule grid_ok_cand)
    show "t \<in> set (candidates E nodes eps2 k) \<and> nearby nodes eps2 k t"
      if "k < length nodes" "t \<in> set (candidates E nodes eps1 k)" "nearby nodes eps1 k t" for k t
      using that grid_monotoneD[OF mono] nearby_mono[OF eps] by blast
    show "k \<in> set (candidates E nodes eps1 t) \<and> nearby nodes eps1 t k"
      if "k < length nodes" "t \<in> set (candidates E nodes eps1 k)" "nearby nodes eps1 k t" for k t
      using that grid_symmetricD[OF sym] nearby_sym by blast
    show "t < length nodes" by fact
    show "collapse_pure (nearby nodes eps2) (candidates E nodes eps2) (length nodes) ! t = t"
      using that(2) by (simp add: m2_def)
  qed
  have le: "n1 \<le> n2"
    unfolding n1_def n2_def by (rule length_filter_mono) (use keep in force)
  have "n2 \<le> length [0..<length nodes]" unfolding n2_def by (rule length_filter_le)
  then have bound: "n2 \<le> length nodes" by simp
  have r1: "collapseNodeIndeces E nodes eps1 = Inr m1"
    using collapseNodeIndeces_pure[OF ids g1] by (simp add: m1_def)
  have r2: "collapseNodeIndeces E nodes eps2 = Inr m2"
    using collapseNodeIndeces_pure[OF ids g2] by (simp add: m2_def)
  have c1: "getNCollapsableNodes E nodes eps1 = Inr (n1 mod 4294967296)"
    using getNCollapsableNodes_pure[OF ids g1] by (simp add: m1_def n1_def)
  have c2: "getNCollapsableNodes E nodes eps2 = Inr (n2 mod 4294967296)"
    using getNCollapsableNodes_pure[OF ids g2] by (simp add: m2_def n2_def)
  have small: "n1 mod 4294967296 \<le> n2 mod 4294967296" if "length nodes < 4294967296"
    using that le bound by simp
  show ?thesis
    using r1 r2 le c1 c2 small unfolding n1_def n2_def by blast
qed

theorem collapsable_count_monotone_witness:
  "ids_ok [nodeAtX 0 0, nodeAtX 1 3]
   \<and> grid_ok (refEnv (cellGrid 2)) [nodeAtX 0 0, nodeAtX 1 3] 2
   \<and> grid_ok (refEnv (cellGrid 2)) [nodeAtX 0 0, nodeAtX 1 3] 4
   \<and> grid_symmetric (refEnv (cellGrid 2)) [nodeAtX 0 0, nodeAtX 1 3] 2
   \<and> grid_monotone (refEnv (cellGrid 2)) [nodeAtX 0 0, nodeAtX 1 3] 2 4
   \<and> (0::real) \<le> 2 \<and> (2::real) \<le> 4
   \<and> collapseNodeIndeces (refEnv (cellGrid 2)) [nodeAtX 0 0, nodeAtX 1 3] 2 = Inr [0, 1]
   \<and> collapseNodeIndeces (refEnv (cellGrid 2)) [nodeAtX 0 0, nodeAtX 1 3] 4 = Inr [0, 0]
   \<and> getNCollapsableNodes (refEnv (cellGrid 2)) [nodeAtX 0 0, nodeAtX 1 3] 2 = Inr 0
   \<and> getNCollapsableNodes (refEnv (cellGrid 2)) [nodeAtX 0 0, nodeAtX 1 3] 4 = Inr 1
   \<and> (\<exists>c1 c2. getNCollapsableNodes (refEnv (cellGrid 2)) [nodeAtX 0 0, nodeAtX 1 3] 2 = Inr c1
         \<and> getNCollapsableNodes (refEnv (cellGrid 2)) [nodeAtX 0 0, nodeAtX 1 3] 4 = Inr c2
         \<and> c1 \<le> c2)"
proof -
  let ?ns = "[nodeAtX 0 0, nodeAtX 1 3]"
  let ?E = "refEnv (cellGrid 2)"
  have i: "ids_ok ?ns" by (simp add: eval_collapse)
  have g1: "grid_ok ?E ?ns 2" by (simp add: eval_collapse)
  have g2: "grid_ok ?E ?ns 4" by (simp add: eval_collapse)
  have s: "grid_symmetric ?E ?ns 2" by (simp add: grid_symmetric_def eval_collapse)
  have mo: "grid_monotone ?E ?ns 2 4" by (simp add: grid_monotone_def eval_collapse)
  have r1: "collapseNodeIndeces ?E ?ns 2 = Inr [0, 1]" by (simp add: eval_collapse)
  have r2: "collapseNodeIndeces ?E ?ns 4 = Inr [0, 0]" by (simp add: eval_collapse)
  have c1: "getNCollapsableNodes ?E ?ns 2 = Inr 0" by (simp add: eval_collapse)
  have c2: "getNCollapsableNodes ?E ?ns 4 = Inr 1" by (simp add: eval_collapse)
  have e: "(0::real) \<le> 2" "(2::real) \<le> 4" by simp_all
  have "\<exists>c1 c2. getNCollapsableNodes ?E ?ns 2 = Inr c1 \<and> getNCollapsableNodes ?E ?ns 4 = Inr c2
         \<and> c1 \<le> c2"
    using collapsable_count_monotone[OF i g1 g2 s mo e] by auto
  then show ?thesis using i g1 g2 s mo r1 r2 c1 c2 by simp
qed

text \<open>Against C9 as stated. The tolerance enters the distance test as its square: with two
  nodes at distance 2 in a grid of one cell, the tolerance \<open>- 3\<close> collapses one node and
  the larger tolerance 1 none. And with the nodes at \<open>x = 0, 1, 4\<close> in a grid of cells of
  edge length 2, the cube of half edge length 3 around node 0 does not meet the cell of
  node 2, while that around node 2 meets the cell of node 0: for the tolerance 6 the rounds
  of the nodes 1 and 2, which have been sent away before, send node 2 and node 0 away in
  turn, so that all three nodes count, and for the tolerance 8 two do.\<close>

theorem collapsable_count_not_monotone:
  "(- 3::real) \<le> 1
   \<and> ids_ok [nodeAtX 0 0, nodeAtX 1 2]
   \<and> getNCollapsableNodes (refEnv oneCellGrid) [nodeAtX 0 0, nodeAtX 1 2] (- 3) = Inr 1
   \<and> getNCollapsableNodes (refEnv oneCellGrid) [nodeAtX 0 0, nodeAtX 1 2] 1 = Inr 0
   \<and> (0::real) \<le> 6 \<and> (6::real) \<le> 8
   \<and> ids_ok cycle_nodes
   \<and> grid_covers (refEnv (cellGrid 2)) cycle_nodes 6
   \<and> grid_covers (refEnv (cellGrid 2)) cycle_nodes 8
   \<and> grid_monotone (refEnv (cellGrid 2)) cycle_nodes 6 8
   \<and> collapseNodeIndeces (refEnv (cellGrid 2)) cycle_nodes 6 = Inr [2, 0, 1]
   \<and> collapseNodeIndeces (refEnv (cellGrid 2)) cycle_nodes 8 = Inr [0, 0, 0]
   \<and> getNCollapsableNodes (refEnv (cellGrid 2)) cycle_nodes 6 = Inr 3
   \<and> getNCollapsableNodes (refEnv (cellGrid 2)) cycle_nodes 8 = Inr 2"
proof -
  have a: "ids_ok [nodeAtX 0 0, nodeAtX 1 2]
      \<and> getNCollapsableNodes (refEnv oneCellGrid) [nodeAtX 0 0, nodeAtX 1 2] (- 3) = Inr 1
      \<and> getNCollapsableNodes (refEnv oneCellGrid) [nodeAtX 0 0, nodeAtX 1 2] 1 = Inr 0"
    by (simp add: eval_collapse)
  have q: "gridQuery (refEnv (cellGrid 2)) = cellGrid 2" by (simp add: refEnv_def)
  have c: "grid_covers (refEnv (cellGrid 2)) cycle_nodes 6" "grid_covers (refEnv (cellGrid 2)) cycle_nodes 8"
    by (rule cellGrid_properties(2)[OF q], simp)+
  have m: "grid_monotone (refEnv (cellGrid 2)) cycle_nodes 6 8"
    by (rule cellGrid_properties(3)[OF q]) simp_all
  have b: "ids_ok cycle_nodes
      \<and> collapseNodeIndeces (refEnv (cellGrid 2)) cycle_nodes 6 = Inr [2, 0, 1]
      \<and> collapseNodeIndeces (refEnv (cellGrid 2)) cycle_nodes 8 = Inr [0, 0, 0]
      \<and> getNCollapsableNodes (refEnv (cellGrid 2)) cycle_nodes 6 = Inr 3
      \<and> getNCollapsableNodes (refEnv (cellGrid 2)) cycle_nodes 8 = Inr 2"
    by (simp add: cycle_nodes_def eval_collapse)
  show ?thesis using a b c m by simp
qed

section \<open>The mesh that collapseNodes returns\<close>










section \<open>Counting unique nodes\<close>

lemma firstOccurrences_card: "length (firstOccurrences ids) = card (set ids)"
proof -
  let ?FO = "firstOccurrences ids"
  have set_FO: "set ?FO = {i. i < length ids \<and> (\<forall>j < i. ids ! i \<noteq> ids ! j)}"
    by (auto simp: firstOccurrences_def list_all_iff)
  have d: "distinct ?FO" by (simp add: firstOccurrences_def)
  have inj: "inj_on (\<lambda>i. ids ! i) (set ?FO)"
  proof (rule inj_onI)
    fix i j assume "i \<in> set ?FO" "j \<in> set ?FO" "ids ! i = ids ! j"
    then show "i = j"
      unfolding set_FO by (metis (mono_tags, lifting) linorder_neqE_nat mem_Collect_eq)
  qed
  have img: "(\<lambda>i. ids ! i) ` set ?FO = set ids"
  proof
    show "(\<lambda>i. ids ! i) ` set ?FO \<subseteq> set ids" unfolding set_FO by auto
    show "set ids \<subseteq> (\<lambda>i. ids ! i) ` set ?FO"
    proof
      fix x assume "x \<in> set ids"
      then obtain i where i: "i < length ids \<and> ids ! i = x" by (auto simp: in_set_conv_nth)
      define m where "m = (LEAST i. i < length ids \<and> ids ! i = x)"
      have m: "m < length ids \<and> ids ! m = x" unfolding m_def using i by (rule LeastI)
      have "\<forall>j < m. ids ! m \<noteq> ids ! j"
      proof (intro allI impI)
        fix j assume jm: "j < m"
        show "ids ! m \<noteq> ids ! j"
        proof
          assume "ids ! m = ids ! j"
          then have "j < length ids \<and> ids ! j = x" using m jm by simp
          then have "m \<le> j" unfolding m_def by (rule Least_le)
          then show False using jm by simp
        qed
      qed
      then have "m \<in> set ?FO" unfolding set_FO using m by simp
      then show "x \<in> (\<lambda>i. ids ! i) ` set ?FO" using m by blast
    qed
  qed
  have "length ?FO = card (set ?FO)" by (rule distinct_card[OF d, symmetric])
  also have "\<dots> = card ((\<lambda>i. ids ! i) ` set ?FO)" by (rule card_image[OF inj, symmetric])
  finally show ?thesis using img by simp
qed

lemma lastOccurrences_card:
  "length (filter (\<lambda>i. \<not> list_ex (\<lambda>j. ids ! i = ids ! j) [Suc i..<length ids]) [0..<length ids])
     = card (set ids)"
proof -
  let ?LO = "filter (\<lambda>i. \<not> list_ex (\<lambda>j. ids ! i = ids ! j) [Suc i..<length ids]) [0..<length ids]"
  have "set ?LO = {i. i < length ids \<and> (\<forall>j. Suc i \<le> j \<and> j < length ids \<longrightarrow> ids ! i \<noteq> ids ! j)}"
    by (auto simp: list_ex_iff)
  then have set_LO: "set ?LO = {i. i < length ids \<and> (\<forall>j. i < j \<and> j < length ids \<longrightarrow> ids ! i \<noteq> ids ! j)}"
    by (simp add: Suc_le_eq)
  have d: "distinct ?LO" by simp
  have inj: "inj_on (\<lambda>i. ids ! i) (set ?LO)"
  proof (rule inj_onI)
    fix i j assume "i \<in> set ?LO" "j \<in> set ?LO" "ids ! i = ids ! j"
    then show "i = j"
      unfolding set_LO by (metis (mono_tags, lifting) linorder_neqE_nat mem_Collect_eq)
  qed
  have img: "(\<lambda>i. ids ! i) ` set ?LO = set ids"
  proof
    show "(\<lambda>i. ids ! i) ` set ?LO \<subseteq> set ids" unfolding set_LO by auto
    show "set ids \<subseteq> (\<lambda>i. ids ! i) ` set ?LO"
    proof
      fix x assume "x \<in> set ids"
      then obtain i where i: "i < length ids \<and> ids ! i = x" by (auto simp: in_set_conv_nth)
      define m where "m = (GREATEST i. i < length ids \<and> ids ! i = x)"
      have bound: "\<And>y. y < length ids \<and> ids ! y = x \<Longrightarrow> y \<le> length ids" by simp
      have m: "m < length ids \<and> ids ! m = x"
        unfolding m_def by (rule GreatestI_nat[where b = "length ids"]) (use i bound in auto)
      have "\<forall>j. m < j \<and> j < length ids \<longrightarrow> ids ! m \<noteq> ids ! j"
      proof (intro allI impI)
        fix j assume jm: "m < j \<and> j < length ids"
        show "ids ! m \<noteq> ids ! j"
        proof
          assume "ids ! m = ids ! j"
          then have "j < length ids \<and> ids ! j = x" using m jm by simp
          then have "j \<le> m"
            unfolding m_def by (intro Greatest_le_nat[where b = "length ids"]) auto
          then show False using jm by simp
        qed
      qed
      then have "m \<in> set ?LO" unfolding set_LO using m by simp
      then show "x \<in> (\<lambda>i. ids ! i) ` set ?LO" using m by blast
    qed
  qed
  have "length ?LO = card (set ?LO)" by (rule distinct_card[OF d, symmetric])
  also have "\<dots> = card ((\<lambda>i. ids ! i) ` set ?LO)" by (rule card_image[OF inj, symmetric])
  finally show ?thesis by (simp only: img)
qed

lemma getNUniqueNodes_card: "getNUniqueNodes ids = card (set ids)"
proof (cases "ids = []")
  case True
  then show ?thesis by (simp add: getNUniqueNodes_def)
next
  case False
  let ?P = "\<lambda>i. list_ex (\<lambda>j. ids ! i = ids ! j) [Suc i..<length ids]"
  obtain n where n: "length ids = Suc n" using False by (cases ids) auto
  have last: "\<not> ?P n" using n by simp
  have e1: "filter ?P [0..<length ids - 1] = filter ?P [0..<length ids]"
    using n last by simp
  have e2: "length (filter ?P [0..<length ids]) + length (filter (\<lambda>i. \<not> ?P i) [0..<length ids])
      = length ids"
    using sum_length_filter_compl[of ?P "[0..<length ids]"] by simp
  have "getNUniqueNodes ids = length ids - length (filter ?P [0..<length ids])"
    by (simp only: getNUniqueNodes_def e1)
  also have "\<dots> = length (filter (\<lambda>i. \<not> ?P i) [0..<length ids])"
    using e2 by linarith
  finally show ?thesis using lastOccurrences_card[of ids] by simp
qed

lemma getNUniqueNodes_le: "getNUniqueNodes ids \<le> length ids"
  by (simp add: getNUniqueNodes_def)

lemma firstOccurrences_distinct: "distinct (map (\<lambda>i. ids ! i) (firstOccurrences ids))"
proof -
  have set_FO: "set (firstOccurrences ids) = {i. i < length ids \<and> (\<forall>j < i. ids ! i \<noteq> ids ! j)}"
    by (auto simp: firstOccurrences_def list_all_iff)
  have "inj_on (\<lambda>i. ids ! i) (set (firstOccurrences ids))"
  proof (rule inj_onI)
    fix i j assume "i \<in> set (firstOccurrences ids)" "j \<in> set (firstOccurrences ids)" "ids ! i = ids ! j"
    then show "i = j"
      unfolding set_FO by (metis (mono_tags, lifting) linorder_neqE_nat mem_Collect_eq)
  qed
  moreover have "distinct (firstOccurrences ids)" by (simp add: firstOccurrences_def)
  ultimately show ?thesis by (simp add: distinct_map)
qed

lemma firstOccurrences_subset: "set (map (\<lambda>i. ids ! i) (firstOccurrences ids)) \<subseteq> set ids"
  by (auto simp: firstOccurrences_def)

lemma getNNodes_ge2: "2 \<le> getNNodes e"
  by (cases "geomType e") (simp_all add: getNNodes_def)

lemma nodeIDs_length:
  "nodeIDs src e = Inr ids \<Longrightarrow> length ids = length (enodes e) \<and> length (enodes e) = getNNodes e"
  by (auto simp: nodeIDs_def split: if_splits)

lemmas eval_reduce = simplifyMesh_def simplify_step_def reduceElement_def reduceHex_def
  reducePrism_def reducePrism_pair_def reducePyramid_def prismOnOriginal_def
  getNodeIDinElement_def prismOffset_def subdivideElement_def subdivideHex_def subdividePrism_def
  subdividePyramid_def subdivideQuad_def findPyramidTopNode_def constructFourNodeElement_def
  orderQuad_def firstOccurrences_def constructTri_def constructLine_def
  getNUniqueNodes_def fromLocal_def newElem_def idsAt_def push_def err_def
  copyElement_def nodeIDs_def getNNodes_def getDimension_def allAt_def mkElement_def
  constructNewNodesArray_def newNodes_step_def resetNodeIDs_def
  planarValidate_def exactCoplanar_def hex_face_nodes_def hex_edge_nodes_def nodeAtXYZ_def
  lutHexDiametralNode_def hex_diametral_nodes_def lutHexBackNodes_def lutHexCuttingQuadNodes_def
  lutPrismThirdNode_def unsigned_max_def

section \<open>Properties of the reduction of elements and of the simplification of a mesh\<close>

lemma simplify_step_degenerate:
  assumes "nodeIDs src elem = Inr ids" and "getNUniqueNodes ids \<le> 1"
  shows "simplify_step E src new_nodes min_elem_dim (Running (new_elements, reports)) (index, elem)
           = Inr (Running (new_elements, reports @ [MoreUniqueNodes]))"
  using assms getNNodes_ge2[of elem]
  by (simp add: simplify_step_def bindF_Inr Let_def err_def)

lemma simplify_step_Aborted:
  "simplify_step E src new_nodes min_elem_dim (Aborted reports) ie = Inr (Aborted reports)"
  by (simp add: simplify_step_def)

text \<open>The loop over a list of elements that holds an element with at most one unique node:
  the loop over the elements before it, the message, and the loop over the elements after
  it.\<close>

lemma simplify_loop_degenerate:
  assumes "nodeIDs src elem = Inr ids" and "getNUniqueNodes ids \<le> 1"
  shows "foldF (simplify_step E src new_nodes min_elem_dim) (xs @ (index, elem) # ys) st
           = bindF (foldF (simplify_step E src new_nodes min_elem_dim) xs st) (\<lambda>st'.
               foldF (simplify_step E src new_nodes min_elem_dim) ys
                 (case st' of Running (els, reps) \<Rightarrow> Running (els, reps @ [MoreUniqueNodes])
                  | Aborted reps \<Rightarrow> Aborted reps))"
proof (cases "foldF (simplify_step E src new_nodes min_elem_dim) xs st")
  case (Inl f)
  then show ?thesis by (simp add: foldF_append bindF_Inl)
next
  case (Inr st')
  show ?thesis
  proof (cases st')
    case (Running s)
    obtain els reps where s: "s = (els, reps)" by (cases s)
    show ?thesis
      using Inr Running s simplify_step_degenerate[OF assms]
      by (simp add: foldF_append bindF_Inr)
  next
    case (Aborted reps)
    show ?thesis
      using Inr Aborted by (simp add: foldF_append bindF_Inr simplify_step_Aborted)
  qed
qed

lemma zip_upt_split:
  "zip [0..<length (xs @ x # ys)] (xs @ x # ys)
     = zip [0..<length xs] xs @ (length xs, x) # zip [Suc (length xs)..<Suc (length xs + length ys)] ys"
proof -
  have "[0..<length xs + Suc (length ys)] = [0..<length xs] @ [length xs..<length xs + Suc (length ys)]"
    by (rule upt_add_eq_append) simp
  moreover have "[length xs..<length xs + Suc (length ys)]
                   = length xs # [Suc (length xs)..<length xs + Suc (length ys)]"
    by (rule upt_conv_Cons) simp
  ultimately have "[0..<length (xs @ x # ys)]
          = [0..<length xs] @ length xs # [Suc (length xs)..<Suc (length xs + length ys)]"
    by simp
  then show ?thesis by simp
qed

lemma simplifyMesh_degenerate_run:
  assumes c: "collapseNodeIndeces E (mesh_nodes mesh) eps = Inr id_map"
    and n: "constructNewNodesArray (mesh_nodes mesh) id_map = Inr (src, new_nodes)"
    and e: "mesh_elements mesh = front @ elem # rest"
    and ids: "nodeIDs src elem = Inr ids" and one: "getNUniqueNodes ids \<le> 1"
  shows "simplifyMesh E new_mesh_name mesh eps min_elem_dim
           = bindF (foldF (simplify_step E src new_nodes min_elem_dim)
                      (zip [0..<length front] front) (Running ([], []))) (\<lambda>st.
             bindF (foldF (simplify_step E src new_nodes min_elem_dim)
                      (zip [Suc (length front)..<Suc (length front + length rest)] rest)
                      (case st of Running (els, reps) \<Rightarrow> Running (els, reps @ [MoreUniqueNodes])
                       | Aborted reps \<Rightarrow> Aborted reps)) (\<lambda>st.
               case st of
                 Aborted reports \<Rightarrow> Inr (None, resetNodeIDs src, reports)
               | Running (new_elements, reports) \<Rightarrow>
                   if new_elements \<noteq> []
                     then Inr (Some \<lparr>mesh_name = new_mesh_name, mesh_nodes = new_nodes,
                                     mesh_elements = new_elements\<rparr>,
                               resetNodeIDs src, reports)
                   else Inr (None, resetNodeIDs src, reports)))"
proof -
  have loop: "foldF (simplify_step E src new_nodes min_elem_dim)
                (zip [0..<length (mesh_elements mesh)] (mesh_elements mesh)) (Running ([], []))
        = bindF (foldF (simplify_step E src new_nodes min_elem_dim)
                      (zip [0..<length front] front) (Running ([], []))) (\<lambda>st.
            foldF (simplify_step E src new_nodes min_elem_dim)
                      (zip [Suc (length front)..<Suc (length front + length rest)] rest)
                      (case st of Running (els, reps) \<Rightarrow> Running (els, reps @ [MoreUniqueNodes])
                       | Aborted reps \<Rightarrow> Aborted reps))"
    unfolding e zip_upt_split by (rule simplify_loop_degenerate[OF ids one])
  have ne: "length (mesh_elements mesh) \<noteq> 0" by (simp add: e)
  show "simplifyMesh E new_mesh_name mesh eps min_elem_dim
           = bindF (foldF (simplify_step E src new_nodes min_elem_dim)
                      (zip [0..<length front] front) (Running ([], []))) (\<lambda>st.
             bindF (foldF (simplify_step E src new_nodes min_elem_dim)
                      (zip [Suc (length front)..<Suc (length front + length rest)] rest)
                      (case st of Running (els, reps) \<Rightarrow> Running (els, reps @ [MoreUniqueNodes])
                       | Aborted reps \<Rightarrow> Aborted reps)) (\<lambda>st.
               case st of
                 Aborted reports \<Rightarrow> Inr (None, resetNodeIDs src, reports)
               | Running (new_elements, reports) \<Rightarrow>
                   if new_elements \<noteq> []
                     then Inr (Some \<lparr>mesh_name = new_mesh_name, mesh_nodes = new_nodes,
                                     mesh_elements = new_elements\<rparr>,
                               resetNodeIDs src, reports)
                   else Inr (None, resetNodeIDs src, reports)))"
    unfolding simplifyMesh_def
    by (simp only: ne if_False c n bindF_Inr prod.case loop bindF_assoc)
qed

text \<open>C1, as amended. The number of unique nodes that \<^verbatim>\<open>getNUniqueNodes\<close> counts never
  exceeds the number of nodes of the element. When an element of the mesh has at most one
  unique node after the collapse, \<^verbatim>\<open>simplifyMesh\<close> does not stop there: it handles the
  elements before that element, reports the element without building an element for it
  and without releasing what it has built, handles the elements after it, and ends as on
  every mesh, with the mesh of the elements it has built if there is one and no
  subdivision has failed.\<close>

theorem simplifyMesh_skips_degenerate:
  "(\<forall>ids'. getNUniqueNodes ids' \<le> length ids')
   \<and> (collapseNodeIndeces E (mesh_nodes mesh) eps = Inr id_map
        \<and> constructNewNodesArray (mesh_nodes mesh) id_map = Inr (src, new_nodes)
        \<and> mesh_elements mesh = front @ elem # rest
        \<and> nodeIDs src elem = Inr ids \<and> getNUniqueNodes ids \<le> 1
      \<longrightarrow> simplifyMesh E new_mesh_name mesh eps min_elem_dim
           = bindF (foldF (simplify_step E src new_nodes min_elem_dim)
                      (zip [0..<length front] front) (Running ([], []))) (\<lambda>st.
             bindF (foldF (simplify_step E src new_nodes min_elem_dim)
                      (zip [Suc (length front)..<Suc (length front + length rest)] rest)
                      (case st of Running (els, reps) \<Rightarrow> Running (els, reps @ [MoreUniqueNodes])
                       | Aborted reps \<Rightarrow> Aborted reps)) (\<lambda>st.
               case st of
                 Aborted reports \<Rightarrow> Inr (None, resetNodeIDs src, reports)
               | Running (new_elements, reports) \<Rightarrow>
                   if new_elements \<noteq> []
                     then Inr (Some \<lparr>mesh_name = new_mesh_name, mesh_nodes = new_nodes,
                                     mesh_elements = new_elements\<rparr>,
                               resetNodeIDs src, reports)
                   else Inr (None, resetNodeIDs src, reports))))"
proof (intro conjI allI impI, goal_cases)
  case (1 ids')
  show ?case by (rule getNUniqueNodes_le)
next
  case 2
  then show ?case by (elim conjE) (rule simplifyMesh_degenerate_run)
qed

theorem simplifyMesh_skips_degenerate_witness:
  "collapseNodeIndeces (refEnv oneCellGrid) (mesh_nodes tri_and_line) 1 = Inr [0, 1, 2, 3, 3]
   \<and> constructNewNodesArray (mesh_nodes tri_and_line) [0, 1, 2, 3, 3]
       = Inr (tri_and_line_src, tri_and_line_new)
   \<and> mesh_elements tri_and_line = [mkElement TRIANGLE [0, 1, 2] 9] @ mkElement LINE [3, 4] 5 # []
   \<and> nodeIDs tri_and_line_src (mkElement LINE [3, 4] 5) = Inr [3, 3]
   \<and> getNUniqueNodes [3, 3] \<le> 1
   \<and> foldF (simplify_step (refEnv oneCellGrid) tri_and_line_src tri_and_line_new 1)
         (zip [0..<length [mkElement TRIANGLE [0, 1, 2] 9]] [mkElement TRIANGLE [0, 1, 2] 9])
         (Running ([], []))
       = Inr (Running ([mkElement TRIANGLE [0, 1, 2] 9], []))
   \<and> simplifyMesh (refEnv oneCellGrid) ''simplified'' tri_and_line 1 1
       = Inr (Some \<lparr>mesh_name = ''simplified'', mesh_nodes = tri_and_line_new,
                    mesh_elements = [mkElement TRIANGLE [0, 1, 2] 9]\<rparr>,
              resetNodeIDs tri_and_line_src, [MoreUniqueNodes])"
proof -
  have c: "collapseNodeIndeces (refEnv oneCellGrid) (mesh_nodes tri_and_line) 1 = Inr [0, 1, 2, 3, 3]"
    by (simp add: tri_and_line_def eval_collapse)
  have n: "constructNewNodesArray (mesh_nodes tri_and_line) [0, 1, 2, 3, 3]
       = Inr (tri_and_line_src, tri_and_line_new)"
    by (simp add: tri_and_line_def tri_and_line_src_def tri_and_line_new_def eval_reduce
        upt_conv_Cons bindF_def)
  have e: "mesh_elements tri_and_line = [mkElement TRIANGLE [0, 1, 2] 9] @ mkElement LINE [3, 4] 5 # []"
    by (simp add: tri_and_line_def)
  have i: "nodeIDs tri_and_line_src (mkElement LINE [3, 4] 5) = Inr [3, 3]"
    by (simp add: tri_and_line_src_def eval_reduce)
  have u: "getNUniqueNodes [3, 3] \<le> 1"
    by (simp add: getNUniqueNodes_def upt_conv_Cons)
  have l: "foldF (simplify_step (refEnv oneCellGrid) tri_and_line_src tri_and_line_new 1)
         (zip [0..<length [mkElement TRIANGLE [0, 1, 2] 9]] [mkElement TRIANGLE [0, 1, 2] 9])
         (Running ([], []))
       = Inr (Running ([mkElement TRIANGLE [0, 1, 2] 9], []))"
    by (simp add: tri_and_line_src_def tri_and_line_new_def eval_reduce refEnv_def bindF_def
        upt_conv_Cons Let_def)
  have "simplifyMesh (refEnv oneCellGrid) ''simplified'' tri_and_line 1 1
       = Inr (Some \<lparr>mesh_name = ''simplified'', mesh_nodes = tri_and_line_new,
                    mesh_elements = [mkElement TRIANGLE [0, 1, 2] 9]\<rparr>,
              resetNodeIDs tri_and_line_src, [MoreUniqueNodes])"
    using simplifyMesh_skips_degenerate[of "refEnv oneCellGrid" tri_and_line 1 "[0, 1, 2, 3, 3]"
            tri_and_line_src tri_and_line_new "[mkElement TRIANGLE [0, 1, 2] 9]"
            "mkElement LINE [3, 4] 5" "[]" "[3, 3]" "''simplified''" 1,
            THEN conjunct2, THEN mp, OF conjI[OF c conjI[OF n conjI[OF e conjI[OF i u]]]],
            unfolded l bindF_Inr]
    by (simp add: bindF_Inr)
  then show ?thesis using c n e i u l by simp
qed

text \<open>Against C1 as stated: on a mesh of a triangle and a line element whose end points
  coincide, \<^verbatim>\<open>simplifyMesh\<close> with tolerance 1 finds one unique node in the line element,
  reports it, and returns the mesh that holds the triangle.\<close>

theorem simplifyMesh_goes_on_after_degenerate:
  "constructNewNodesArray (mesh_nodes tri_and_line) [0, 1, 2, 3, 3]
     = Inr (tri_and_line_src, tri_and_line_new)
   \<and> getNUniqueNodes [3, 3] = 1
   \<and> simplifyMesh (refEnv oneCellGrid) ''simplified'' tri_and_line 1 1
       = Inr (Some \<lparr>mesh_name = ''simplified'', mesh_nodes = tri_and_line_new,
                    mesh_elements = [mkElement TRIANGLE [0, 1, 2] 9]\<rparr>,
              mesh_nodes tri_and_line, [MoreUniqueNodes])"
  by (simp add: tri_and_line_def tri_and_line_src_def tri_and_line_new_def eval_reduce eval_collapse)

text \<open>C4. In the branch of \<^verbatim>\<open>reduceHex\<close> for six unique nodes, let the first face of the
  hexahedron have the corners \<open>a, b, c, d\<close> and let its opposite edges \<open>(a, d)\<close> and
  \<open>(b, c)\<close> have collapsed, which is the second of the two patterns the loop over the
  faces tests. Then \<^verbatim>\<open>reduceHex\<close> fills the node array of the prism and returns 1 without
  adding an element: the output is what it was (or a read has left its vector before).
  The first pattern, the collapsed edges \<open>(a, b)\<close> and \<open>(c, d)\<close>, adds the prism.\<close>

theorem reduceHex_second_pattern:
  assumes ids: "nodeIDs src org_elem = Inr ids" and len: "length ids = 8"
    and face: "hexFaceNodes E 0 = [a, b, c, d]" and rng: "a < 8" "b < 8" "c < 8" "d < 8"
    and notA: "ids ! a \<noteq> ids ! b \<or> ids ! c \<noteq> ids ! d"
    and B: "ids ! a = ids ! d" "ids ! b = ids ! c"
  shows "(\<exists>f. reduceHex E src nodes org_elem 6 s min_elem_dim = Inl f)
       \<or> reduceHex E src nodes org_elem 6 s min_elem_dim = Inr (1, s)"
proof -
  have l: "length (enodes org_elem) = 8" using nodeIDs_length[OF ids] len by simp
  have u: "[0..<6] = 0 # [1..<6]" by (simp add: upt_conv_Cons)
  have "(\<exists>f. reduceHex_faces E nodes org_elem ids [0..<6] s = Inl f)
      \<or> reduceHex_faces E nodes org_elem ids [0..<6] s = Inr (Some (1, s))"
    unfolding u using face rng notA B len l
    by (auto simp: Let_def bindF_def split: sum.splits)
  then show ?thesis
    using len by (auto simp: reduceHex_def ids bindF_def)
qed

theorem reduceHex_second_pattern_witness:
  "nodeIDs pinched_src the_hex = Inr [0, 0, 1, 1, 2, 3, 4, 5]
   \<and> hexFaceNodes (refEnv oneCellGrid) 0 = [0, 3, 2, 1]
   \<and> reduceHex (refEnv oneCellGrid) pinched_src pinched_new the_hex 6 ([], []) 1 = Inr (1, ([], []))"
proof -
  have i: "nodeIDs pinched_src the_hex = Inr [0, 0, 1, 1, 2, 3, 4, 5]"
    by (simp add: pinched_src_def the_hex_def eval_reduce)
  have f: "hexFaceNodes (refEnv oneCellGrid) 0 = [0, 3, 2, 1]"
    by (simp add: refEnv_def hex_face_nodes_def)
  have r: "reduceHex (refEnv oneCellGrid) pinched_src pinched_new the_hex 6 ([], []) 1 = Inr (1, ([], []))"
    by (simp add: pinched_src_def pinched_new_def the_hex_def eval_reduce eval_collapse)
  show ?thesis
    using reduceHex_second_pattern[OF i _ f, of pinched_new "([], [])" 1] i f r by simp
qed

text \<open>The cube whose bottom edges \<open>(0, 1)\<close> and \<open>(3, 2)\<close> have collapsed is a mesh of one
  element; \<^verbatim>\<open>simplifyMesh\<close> builds no element from it and returns no mesh. With the edges
  \<open>(0, 3)\<close> and \<open>(1, 2)\<close> collapsed it returns the mesh of one prism.\<close>

lemma simplifyMesh_pinched_cube:
  "collapseNodeIndeces (refEnv oneCellGrid) pinched_cube 1 = Inr [0, 0, 2, 2, 4, 5, 6, 7]
   \<and> constructNewNodesArray pinched_cube [0, 0, 2, 2, 4, 5, 6, 7] = Inr (pinched_src, pinched_new)
   \<and> getNUniqueNodes [0, 0, 1, 1, 2, 3, 4, 5] = 6
   \<and> simplifyMesh (refEnv oneCellGrid) ''simplified''
        \<lparr>mesh_name = ''cube'', mesh_nodes = pinched_cube, mesh_elements = [the_hex]\<rparr> 1 1
      = Inr (None, pinched_cube, [])"
  by (simp add: pinched_cube_def pinched_src_def pinched_new_def the_hex_def eval_reduce eval_collapse)

lemma simplifyMesh_pinched_cube':
  "simplifyMesh (refEnv oneCellGrid) ''simplified''
        \<lparr>mesh_name = ''cube'', mesh_nodes = pinched_cube', mesh_elements = [the_hex]\<rparr> 1 1
      = Inr (Some \<lparr>mesh_name = ''simplified'',
                   mesh_nodes = [nodeAtXYZ 0 0 0 0, nodeAtXYZ 1 4 0 0, nodeAtXYZ 2 0 0 4,
                                 nodeAtXYZ 3 4 0 4, nodeAtXYZ 4 4 4 4, nodeAtXYZ 5 0 4 4],
                   mesh_elements = [mkElement PRISM [4, 3, 1, 2, 5, 0] 9]\<rparr>,
             pinched_cube', [])"
  by (simp add: pinched_cube'_def the_hex_def eval_reduce eval_collapse)

text \<open>C5, as amended. Let the element have exactly four unique nodes, \<open>p0, p1, p2, p3\<close> in
  the order of their first occurrence, all of them in the new node vector. If the four
  nodes are coplanar and \<open>min_elem_dim < 3\<close>, \<^verbatim>\<open>constructFourNodeElement\<close> returns a
  quadrilateral: on \<open>p0, p1, p2, p3\<close> if that passes the validation; otherwise, after the
  exchange of the two middle nodes, on \<open>p0, p2, p1, p3\<close> if that passes; otherwise, after
  the exchange of the last two nodes, on \<open>p0, p2, p3, p1\<close>, which is returned without
  being validated. If they are coplanar and \<open>min_elem_dim\<close> is 3 (or more), it returns no
  element. If they are not coplanar, it returns the tetrahedron on \<open>p0, p1, p2, p3\<close>.\<close>

theorem constructFourNodeElement_cases:
  assumes ids: "nodeIDs src element = Inr ids"
    and four: "getNUniqueNodes ids = 4"
    and rng: "list_all (\<lambda>x. x < length nodes) ids"
  shows "\<exists>p0 p1 p2 p3.
           map (\<lambda>i. ids ! i) (firstOccurrences ids) = [p0, p1, p2, p3]
         \<and> distinct [p0, p1, p2, p3]
         \<and> constructFourNodeElement E src nodes element min_elem_dim =
             (if isCoplanar E (coords (nodes ! p0)) (coords (nodes ! p1))
                   (coords (nodes ! p2)) (coords (nodes ! p3))
              then (if min_elem_dim < 3
                    then Inr (Some (mkElement QUAD
                           (if validate E QUAD [nodes ! p0, nodes ! p1, nodes ! p2, nodes ! p3] = {}
                              then [p0, p1, p2, p3]
                            else if validate E QUAD [nodes ! p0, nodes ! p2, nodes ! p1, nodes ! p3] = {}
                              then [p0, p2, p1, p3]
                            else [p0, p2, p3, p1])
                           (evalue element)))
                    else Inr None)
              else Inr (Some (mkElement TETRAHEDRON [p0, p1, p2, p3] (evalue element))))"
proof -
  define ps where "ps = map (\<lambda>i. ids ! i) (firstOccurrences ids)"
  have len: "length ps = 4"
    using four by (simp add: ps_def firstOccurrences_card getNUniqueNodes_card)
  then obtain p0 p1 p2 p3 where ps: "ps = [p0, p1, p2, p3]"
    by (auto simp: length_Suc_conv numeral_eq_Suc)
  have d: "distinct [p0, p1, p2, p3]"
    using firstOccurrences_distinct[of ids] unfolding ps_def[symmetric] ps .
  have len': "length (firstOccurrences ids) = 4"
    using len by (simp add: ps_def)
  have full: "map (\<lambda>i. ids ! i) (firstOccurrences ids) = [p0, p1, p2, p3]"
    using ps by (simp add: ps_def)
  have "list_all (\<lambda>x. x < length nodes) ps"
    using rng firstOccurrences_subset[of ids] unfolding ps_def list_all_iff by blast
  then have al: "allAt nodes [p0, p1, p2, p3] = Inr [p0, p1, p2, p3]"
    unfolding ps by (simp add: allAt_def)
  have main: "constructFourNodeElement E src nodes element min_elem_dim =
             (if isCoplanar E (coords (nodes ! p0)) (coords (nodes ! p1))
                   (coords (nodes ! p2)) (coords (nodes ! p3))
              then (if min_elem_dim < 3
                    then Inr (Some (mkElement QUAD
                           (if validate E QUAD [nodes ! p0, nodes ! p1, nodes ! p2, nodes ! p3] = {}
                              then [p0, p1, p2, p3]
                            else if validate E QUAD [nodes ! p0, nodes ! p2, nodes ! p1, nodes ! p3] = {}
                              then [p0, p2, p1, p3]
                            else [p0, p2, p3, p1])
                           (evalue element)))
                    else Inr None)
              else Inr (Some (mkElement TETRAHEDRON [p0, p1, p2, p3] (evalue element))))"
    using len'
    by (simp add: constructFourNodeElement_def ids bindF_Inr full al orderQuad_def Let_def)
  show ?thesis
    by (rule exI[of _ p0], rule exI[of _ p1], rule exI[of _ p2], rule exI[of _ p3], intro conjI)
       (fact full, fact d, fact main)
qed

theorem constructFourNodeElement_cases_witness:
  "nodeIDs flat_pyramid_src the_pyramid = Inr [0, 1, 2, 3, 0]
   \<and> getNUniqueNodes [0, 1, 2, 3, 0] = 4
   \<and> list_all (\<lambda>x. x < length flat_pyramid_new) [0, 1, 2, 3, 0]
   \<and> constructFourNodeElement (refEnv oneCellGrid) flat_pyramid_src flat_pyramid_new the_pyramid 1
       = Inr (Some (mkElement QUAD [0, 1, 2, 3] 9))
   \<and> constructFourNodeElement (refEnv oneCellGrid) flat_pyramid_src flat_pyramid_new the_pyramid 3
       = Inr None"
proof -
  have i: "nodeIDs flat_pyramid_src the_pyramid = Inr [0, 1, 2, 3, 0]"
    by (simp add: flat_pyramid_src_def the_pyramid_def eval_reduce)
  have u: "getNUniqueNodes [0, 1, 2, 3, 0] = 4"
    by (simp add: eval_reduce upt_conv_Cons)
  have r: "list_all (\<lambda>x. x < length flat_pyramid_new) [0, 1, 2, 3, 0]"
    by (simp add: flat_pyramid_new_def)
  have f: "map (\<lambda>i. [0, 1, 2, 3, 0::nat] ! i) (firstOccurrences [0, 1, 2, 3, 0]) = [0, 1, 2, 3]"
    by (simp add: firstOccurrences_def upt_conv_Cons)
  have c: "isCoplanar (refEnv oneCellGrid) (coords (flat_pyramid_new ! 0)) (coords (flat_pyramid_new ! 1))
             (coords (flat_pyramid_new ! 2)) (coords (flat_pyramid_new ! 3))"
    by (simp add: flat_pyramid_new_def refEnv_def exactCoplanar_def nodeAtXYZ_def)
  have v: "validate (refEnv oneCellGrid) QUAD
             [flat_pyramid_new ! 0, flat_pyramid_new ! 1, flat_pyramid_new ! 2, flat_pyramid_new ! 3] = {}"
    by (simp add: flat_pyramid_new_def refEnv_def planarValidate_def exactCoplanar_def nodeAtXYZ_def)
  show ?thesis
    using constructFourNodeElement_cases[OF i u r, of "refEnv oneCellGrid" 1]
          constructFourNodeElement_cases[OF i u r, of "refEnv oneCellGrid" 3] i u r f c v
    by (auto simp: the_pyramid_def mkElement_def)
qed

text \<open>Against C5 as stated, with the validation that asks a quadrilateral to be convex.
  On the pyramid whose unique nodes are \<open>(0,0), (4,0), (1,1), (0,4)\<close> the first two orders
  fail the validation, and the quadrilateral that is returned, on the nodes
  \<open>0, 2, 3, 1\<close>, fails it too: the loop has not gone on until a quadrilateral passed. On
  the pyramid whose unique nodes are the corners \<open>(0,0), (0,4), (4,0), (4,4)\<close> of a square
  the returned quadrilateral is on the nodes \<open>0, 2, 3, 1\<close> as well, and valid: the second
  exchange has moved node 1 behind node 3, it is not an exchange of the two middle nodes,
  which would have given back the first order.\<close>

theorem constructFourNodeElement_third_order:
  "nodeIDs dart_pyramid_src the_pyramid = Inr [0, 1, 2, 3, 0]
   \<and> getNUniqueNodes [0, 1, 2, 3, 0] = 4
   \<and> constructFourNodeElement ((refEnv oneCellGrid)\<lparr>validate := convexValidate\<rparr>)
         dart_pyramid_src dart_pyramid_new the_pyramid 1
       = Inr (Some (mkElement QUAD [0, 2, 3, 1] 9))
   \<and> convexValidate QUAD [dart_pyramid_new ! 0, dart_pyramid_new ! 1, dart_pyramid_new ! 2,
                           dart_pyramid_new ! 3] = {NonConvex}
   \<and> convexValidate QUAD [dart_pyramid_new ! 0, dart_pyramid_new ! 2, dart_pyramid_new ! 1,
                           dart_pyramid_new ! 3] = {NonConvex}
   \<and> convexValidate QUAD [dart_pyramid_new ! 0, dart_pyramid_new ! 2, dart_pyramid_new ! 3,
                           dart_pyramid_new ! 1] = {NonConvex}
   \<and> nodeIDs crossed_pyramid_src the_pyramid = Inr [0, 1, 2, 3, 0]
   \<and> constructFourNodeElement ((refEnv oneCellGrid)\<lparr>validate := convexValidate\<rparr>)
         crossed_pyramid_src crossed_pyramid_new the_pyramid 1
       = Inr (Some (mkElement QUAD [0, 2, 3, 1] 9))
   \<and> convexValidate QUAD [crossed_pyramid_new ! 0, crossed_pyramid_new ! 2, crossed_pyramid_new ! 1,
                           crossed_pyramid_new ! 3] = {NonConvex}
   \<and> convexValidate QUAD [crossed_pyramid_new ! 0, crossed_pyramid_new ! 2, crossed_pyramid_new ! 3,
                           crossed_pyramid_new ! 1] = {}"
  by (simp add: dart_pyramid_src_def dart_pyramid_new_def crossed_pyramid_src_def
      crossed_pyramid_new_def the_pyramid_def refEnv_def eval_reduce convexValidate_def turn_def
      upt_conv_Cons bindF_def Let_def)

text \<open>A pyramid whose four unique nodes are not coplanar.\<close>

lemma constructFourNodeElement_tetrahedron:
  "constructFourNodeElement (refEnv oneCellGrid) steep_pyramid_src steep_pyramid_new the_pyramid 1
     = Inr (Some (mkElement TETRAHEDRON [0, 1, 2, 3] 9))"
  by (simp add: steep_pyramid_src_def steep_pyramid_new_def the_pyramid_def refEnv_def eval_reduce
      upt_conv_Cons bindF_def)

text \<open>C8. \<^verbatim>\<open>simplifyMesh\<close> returns no mesh for a mesh without elements, and a mesh it
  returns has at least one element.\<close>

theorem simplifyMesh_no_empty_mesh:
  "(mesh_elements mesh = [] \<longrightarrow>
      simplifyMesh E new_mesh_name mesh eps min_elem_dim = Inr (None, mesh_nodes mesh, []))
   \<and> (\<forall>new_mesh nodes reports.
        simplifyMesh E new_mesh_name mesh eps min_elem_dim = Inr (Some new_mesh, nodes, reports)
        \<longrightarrow> mesh_elements new_mesh \<noteq> [])"
  by (auto simp: simplifyMesh_def bindF_def split: sum.splits progress.splits prod.splits if_splits)

theorem simplifyMesh_no_empty_mesh_witness:
  "mesh_elements (tri_and_line\<lparr>mesh_elements := []\<rparr>) = []
   \<and> simplifyMesh (refEnv oneCellGrid) ''simplified'' (tri_and_line\<lparr>mesh_elements := []\<rparr>) 1 1
       = Inr (None, mesh_nodes tri_and_line, [])
   \<and> simplifyMesh (refEnv oneCellGrid) ''simplified''
        (tri_and_line\<lparr>mesh_elements := [mkElement LINE [3, 4] 5]\<rparr>) 1 1
       = Inr (None, mesh_nodes tri_and_line, [MoreUniqueNodes])
   \<and> simplifyMesh (refEnv oneCellGrid) ''simplified'' tri_and_line 1 1
       = Inr (Some \<lparr>mesh_name = ''simplified'', mesh_nodes = tri_and_line_new,
                    mesh_elements = [mkElement TRIANGLE [0, 1, 2] 9]\<rparr>,
              mesh_nodes tri_and_line, [MoreUniqueNodes])
   \<and> [mkElement TRIANGLE [0, 1, 2] 9] \<noteq> []"
proof -
  have e: "mesh_elements (tri_and_line\<lparr>mesh_elements := []\<rparr>) = []" by simp
  have s: "simplifyMesh (refEnv oneCellGrid) ''simplified'' tri_and_line 1 1
       = Inr (Some \<lparr>mesh_name = ''simplified'', mesh_nodes = tri_and_line_new,
                    mesh_elements = [mkElement TRIANGLE [0, 1, 2] 9]\<rparr>,
              mesh_nodes tri_and_line, [MoreUniqueNodes])"
    by (simp add: tri_and_line_def tri_and_line_new_def eval_reduce eval_collapse)
  have l: "simplifyMesh (refEnv oneCellGrid) ''simplified''
        (tri_and_line\<lparr>mesh_elements := [mkElement LINE [3, 4] 5]\<rparr>) 1 1
       = Inr (None, mesh_nodes tri_and_line, [MoreUniqueNodes])"
    by (simp add: tri_and_line_def eval_reduce eval_collapse)
  show ?thesis
    using simplifyMesh_no_empty_mesh[of "tri_and_line\<lparr>mesh_elements := []\<rparr>" "refEnv oneCellGrid"
            "''simplified''" 1 1]
          simplifyMesh_no_empty_mesh[of tri_and_line "refEnv oneCellGrid" "''simplified''" 1 1] e s l
    by simp
qed

end
